theory Spec2Isabelle
  imports Complex_Main
begin

section \<open>Numbers, points and errors\<close>

text \<open>
  The simulator computes with Python floats and two-element numpy arrays.  Coordinates,
  barrier distances, speeds and progress fractions are modelled as \<^typ>\<open>real\<close> numbers
  (exact arithmetic, no rounding, no NaN), and a numpy array of two floats as a pair.
  The only non-finite value the code creates itself is \<^verbatim>\<open>float('inf')\<close>, the distance
  reported when there are no obstacles; it is the constructor \<open>Infinity\<close> of the type
  \<open>distance\<close> below.
\<close>

type_synonym point = "real \<times> real"

datatype py_error = ZeroDivisionError | ValueError | KeyError

definition vadd :: "point \<Rightarrow> point \<Rightarrow> point" where
  "vadd p q = (fst p + fst q, snd p + snd q)"

definition vsub :: "point \<Rightarrow> point \<Rightarrow> point" where
  "vsub p q = (fst p - fst q, snd p - snd q)"

definition smul :: "point \<Rightarrow> real \<Rightarrow> point" where
  "smul p k = (fst p * k, snd p * k)"

definition dot :: "point \<Rightarrow> point \<Rightarrow> real" where
  "dot p q = fst p * fst q + snd p * snd q"

text \<open>\<^verbatim>\<open>np.linalg.norm\<close> of a two-element array.\<close>

definition norm_vec :: "point \<Rightarrow> real" where
  "norm_vec p = sqrt (fst p * fst p + snd p * snd p)"

text \<open>
  Division of an array by a scalar.  A division by zero is made an explicit error of the
  model, so that "no division error" is the statement that a result is \<open>Inr\<close>.
\<close>

definition vdiv :: "point \<Rightarrow> real \<Rightarrow> py_error + point" where
  "vdiv p k = (if k = 0 then Inl ZeroDivisionError else Inr (fst p / k, snd p / k))"

section \<open>Safe-point correction and path planning\<close>

text \<open>
  \<^verbatim>\<open>HeadlessCarSimulator.ensure_safe_point\<close> (and the identical \<^verbatim>\<open>MovingCar.ensure_safe_point\<close>):
  one pass over the obstacles in input order, the running \<^verbatim>\<open>safe_point\<close> being pushed away
  from each obstacle whose barrier it violates.  The methods read \<^verbatim>\<open>self.obstacle_positions\<close>
  and \<^verbatim>\<open>self.barrier_distance\<close>; here they are arguments.
\<close>

fun ensure_safe_loop :: "real \<Rightarrow> point list \<Rightarrow> point \<Rightarrow> py_error + point" where
  "ensure_safe_loop barrier [] safe_point = Inr safe_point"
| "ensure_safe_loop barrier (obstacle # rest) safe_point =
     (let distance = norm_vec (vsub safe_point obstacle) in
      if distance < barrier then
        (let direction_away = vsub safe_point obstacle in
         case (if norm_vec direction_away > 0
               then vdiv direction_away (norm_vec direction_away)
               else Inr direction_away) of
           Inl e \<Rightarrow> Inl e
         | Inr direction_unit \<Rightarrow>
             ensure_safe_loop barrier rest
               (vadd obstacle (smul (smul direction_unit barrier) 1.1)))
      else ensure_safe_loop barrier rest safe_point)"

definition ensure_safe_point :: "point list \<Rightarrow> real \<Rightarrow> point \<Rightarrow> py_error + point" where
  "ensure_safe_point obstacles barrier point = ensure_safe_loop barrier obstacles point"

text \<open>
  The body of the \<^verbatim>\<open>for obstacle in self.obstacle_positions\<close> loop of
  \<^verbatim>\<open>calculate_safe_path\<close>, on the loop state \<^verbatim>\<open>(path, current_pos)\<close>.  The values
  \<^verbatim>\<open>to_obstacle\<close> and \<^verbatim>\<open>obstacle_dist\<close> are computed by the source and never read.
\<close>

definition plan_obstacle ::
  "point \<Rightarrow> point \<Rightarrow> point list \<Rightarrow> real \<Rightarrow> point list \<times> point \<Rightarrow> point
     \<Rightarrow> py_error + (point list \<times> point)" where
  "plan_obstacle start_pt end_pt obstacles barrier st obstacle =
     (let path = fst st; current_pos = snd st;
          main_raw = vsub end_pt start_pt in
      case (if norm_vec main_raw > 0 then vdiv main_raw (norm_vec main_raw) else Inr main_raw) of
        Inl e \<Rightarrow> Inl e
      | Inr main_direction \<Rightarrow>
         (let perp = (- snd main_direction, fst main_direction);
              side1 = vadd obstacle (smul (smul perp barrier) 1.5);
              side2 = vsub obstacle (smul (smul perp barrier) 1.5);
              dist1 = norm_vec (vsub end_pt side1);
              dist2 = norm_vec (vsub end_pt side2);
              best_side = (if dist1 < dist2 then side1 else side2);
              safe_distance = barrier * 1.2;
              approach_raw =
                vadd (vsub obstacle (smul main_direction safe_distance))
                     (smul (smul perp (sgn (dot perp (vsub best_side obstacle)))) safe_distance)
          in case ensure_safe_point obstacles barrier approach_raw of
               Inl e \<Rightarrow> Inl e
             | Inr approach_point \<Rightarrow>
                (case ensure_safe_point obstacles barrier best_side of
                   Inl e \<Rightarrow> Inl e
                 | Inr avoidance_point \<Rightarrow>
                    (let st1 = (if norm_vec (vsub approach_point current_pos) > 0.1
                                then (path @ [approach_point], approach_point)
                                else (path, current_pos));
                         st2 = (if norm_vec (vsub avoidance_point (snd st1)) > 0.1
                                then (fst st1 @ [avoidance_point], avoidance_point)
                                else st1)
                     in Inr st2))))"

fun plan_obstacles ::
  "point \<Rightarrow> point \<Rightarrow> point list \<Rightarrow> real \<Rightarrow> point list \<times> point \<Rightarrow> point list
     \<Rightarrow> py_error + (point list \<times> point)" where
  "plan_obstacles start_pt end_pt obstacles barrier st [] = Inr st"
| "plan_obstacles start_pt end_pt obstacles barrier st (obstacle # rest) =
     (case plan_obstacle start_pt end_pt obstacles barrier st obstacle of
        Inl e \<Rightarrow> Inl e
      | Inr st' \<Rightarrow> plan_obstacles start_pt end_pt obstacles barrier st' rest)"

text \<open>The final pass \<^verbatim>\<open>for point in path\<close> that builds \<^verbatim>\<open>clean_path\<close>.\<close>

fun clean_loop :: "point list \<Rightarrow> point list \<Rightarrow> point list" where
  "clean_loop clean_path [] = clean_path"
| "clean_loop clean_path (point # rest) =
     (if length clean_path = 0 \<or> norm_vec (vsub point (last clean_path)) > 0.1
      then clean_loop (clean_path @ [point]) rest
      else clean_loop clean_path rest)"

definition calculate_safe_path ::
  "point \<Rightarrow> point \<Rightarrow> point list \<Rightarrow> real \<Rightarrow> py_error + point list" where
  "calculate_safe_path start_pt end_pt obstacles barrier =
     (if obstacles = [] then Inr [start_pt, end_pt]
      else case plan_obstacles start_pt end_pt obstacles barrier ([start_pt], start_pt) obstacles of
             Inl e \<Rightarrow> Inl e
           | Inr st \<Rightarrow>
              (case ensure_safe_point obstacles barrier end_pt of
                 Inl e \<Rightarrow> Inl e
               | Inr final_point \<Rightarrow>
                  (let path = (if norm_vec (vsub final_point (snd st)) > 0.1
                               then fst st @ [final_point] else fst st)
                   in Inr (clean_loop [] path))))"

section \<open>The headless simulator: state and stepping\<close>

record car =
  start_point :: point
  end_point :: point
  obstacle_positions :: "point list"
  barrier_distance :: real
  speed :: real
  current_position :: point
  path :: "point list"
  current_path_index :: nat
  progress :: real
  has_reached_end :: bool

text \<open>\<^verbatim>\<open>HeadlessCarSimulator.__init__\<close>: the arguments are stored as given; the path is planned once.\<close>

definition HeadlessCarSimulator ::
  "point \<Rightarrow> point \<Rightarrow> point list \<Rightarrow> real \<Rightarrow> real \<Rightarrow> py_error + car" where
  "HeadlessCarSimulator start_pt end_pt obstacles barrier spd =
     (case calculate_safe_path start_pt end_pt obstacles barrier of
        Inl e \<Rightarrow> Inl e
      | Inr p \<Rightarrow>
          Inr \<lparr> start_point = start_pt, end_point = end_pt, obstacle_positions = obstacles,
                barrier_distance = barrier, speed = spd, current_position = start_pt,
                path = p, current_path_index = 0, progress = 0, has_reached_end = False \<rparr>)"

text \<open>
  \<^verbatim>\<open>HeadlessCarSimulator.step\<close>.  The result is the returned flag together with the updated
  object.  \<^verbatim>\<open>segment_start\<close> and \<^verbatim>\<open>segment_end\<close> are read before the index advances, as in
  the source; both reads are in range under the guard \<^verbatim>\<open>current_path_index < len(path) - 1\<close>.
\<close>

definition step :: "car \<Rightarrow> bool \<times> car" where
  "step c =
     (if has_reached_end c then (False, c)
      else if int (current_path_index c) < int (length (path c)) - 1 then
        (let segment_start = path c ! current_path_index c;
             segment_end = path c ! (current_path_index c + 1);
             c1 = c\<lparr>progress := progress c + speed c\<rparr>;
             c2 = (if progress c1 \<ge> 1.0 then
                     (let c' = c1\<lparr>progress := 0.0,
                                  current_path_index := current_path_index c1 + 1\<rparr>
                      in if int (current_path_index c') \<ge> int (length (path c')) - 1
                         then c'\<lparr>has_reached_end := True\<rparr> else c')
                   else c1);
             c3 = (if \<not> has_reached_end c2 then
                     c2\<lparr>current_position :=
                          vadd segment_start
                               (smul (vsub segment_end segment_start) (progress c2))\<rparr>
                   else c2)
         in (\<not> has_reached_end c3, c3))
      else (\<not> has_reached_end c, c))"

section \<open>Distances and safety classification\<close>

datatype distance = Finite real | Infinity

text \<open>Python's \<^verbatim>\<open>d < x\<close> for a distance \<open>d\<close> that may be \<^verbatim>\<open>float('inf')\<close> and a finite \<open>x\<close>.\<close>

fun dist_less :: "distance \<Rightarrow> real \<Rightarrow> bool" where
  "dist_less (Finite d) x = (d < x)"
| "dist_less Infinity x = False"

fun dist_lt :: "distance \<Rightarrow> distance \<Rightarrow> bool" where
  "dist_lt (Finite a) (Finite b) = (a < b)"
| "dist_lt (Finite a) Infinity = True"
| "dist_lt Infinity b = False"

text \<open>
  Python's built-in \<^verbatim>\<open>min\<close>: the first element is the candidate, and a later element
  replaces it only when its key is strictly smaller, so the first minimal element wins.
  \<^verbatim>\<open>min\<close> of an empty sequence raises \<^verbatim>\<open>ValueError\<close>.
\<close>

fun min_by_loop :: "('a \<Rightarrow> 'k::linorder) \<Rightarrow> 'a \<Rightarrow> 'a list \<Rightarrow> 'a" where
  "min_by_loop key best [] = best"
| "min_by_loop key best (x # xs) =
     (if key x < key best then min_by_loop key x xs else min_by_loop key best xs)"

definition py_min_by :: "('a \<Rightarrow> 'k::linorder) \<Rightarrow> 'a list \<Rightarrow> py_error + 'a" where
  "py_min_by key xs = (case xs of [] \<Rightarrow> Inl ValueError | x # rest \<Rightarrow> Inr (min_by_loop key x rest))"

text \<open>\<^verbatim>\<open>min(a, b)\<close> on two distances: \<open>b\<close> only when it is strictly smaller.\<close>

definition dist_min :: "distance \<Rightarrow> distance \<Rightarrow> distance" where
  "dist_min a b = (if dist_lt b a then b else a)"

datatype safety_state = SAFE | MILD_UNSAFE | UNSAFE

definition get_distance_to_obstacles :: "car \<Rightarrow> distance" where
  "get_distance_to_obstacles c =
     (case map (\<lambda>obstacle. norm_vec (vsub (current_position c) obstacle)) (obstacle_positions c) of
        [] \<Rightarrow> Infinity
      | d # distances \<Rightarrow> Finite (min_by_loop (\<lambda>x. x) d distances))"

definition get_safety_state :: "car \<Rightarrow> safety_state" where
  "get_safety_state c =
     (let distance = get_distance_to_obstacles c;
          obstacle_radius = 0.5
      in if dist_less distance obstacle_radius then UNSAFE
         else if dist_less distance (barrier_distance c) then MILD_UNSAFE
         else SAFE)"

section \<open>Running one scenario\<close>

record test_result =
  test_id :: nat
  tr_barrier_distance :: real
  total_frames :: nat
  safe_frames :: nat
  mild_unsafe_frames :: nat
  unsafe_frames :: nat
  min_distance_observed :: distance
  description :: string

text \<open>\<^verbatim>\<open>TestResult.__init__\<close>, with the arguments in the order of the source.\<close>

definition TestResult ::
  "nat \<Rightarrow> real \<Rightarrow> nat \<Rightarrow> nat \<Rightarrow> nat \<Rightarrow> nat \<Rightarrow> distance \<Rightarrow> string \<Rightarrow> test_result" where
  "TestResult tid barrier n_total n_safe n_mild n_unsafe min_distance descr =
     \<lparr> test_id = tid, tr_barrier_distance = barrier, total_frames = n_total,
       safe_frames = n_safe, mild_unsafe_frames = n_mild, unsafe_frames = n_unsafe,
       min_distance_observed = min_distance, description = descr \<rparr>"

text \<open>The property \<^verbatim>\<open>TestResult.safety_status\<close>: the worst state observed.\<close>

definition safety_status :: "test_result \<Rightarrow> safety_state" where
  "safety_status r =
     (if unsafe_frames r > 0 then UNSAFE
      else if mild_unsafe_frames r > 0 then MILD_UNSAFE
      else SAFE)"

record frame_data =
  fd_test_id :: nat
  fd_frame :: nat
  fd_position :: point
  fd_distance_to_obstacle :: distance
  fd_safety_state :: safety_state

record collector =
  test_results :: "test_result list"
  current_test_data :: "frame_data list"

definition TestDataCollector :: collector where
  "TestDataCollector = \<lparr> test_results = [], current_test_data = [] \<rparr>"

definition collect_frame_data ::
  "collector \<Rightarrow> nat \<Rightarrow> nat \<Rightarrow> point \<Rightarrow> distance \<Rightarrow> safety_state \<Rightarrow> collector" where
  "collect_frame_data dc tid frame position d st =
     dc\<lparr>current_test_data := current_test_data dc @
          [\<lparr> fd_test_id = tid, fd_frame = frame, fd_position = position,
             fd_distance_to_obstacle = d, fd_safety_state = st \<rparr>]\<rparr>"

text \<open>The local variables of \<^verbatim>\<open>run_single_test\<close> together with the two objects it mutates.\<close>

record run_state =
  rs_car :: car
  rs_safe_frames :: nat
  rs_mild_unsafe_frames :: nat
  rs_unsafe_frames :: nat
  rs_min_distance_observed :: distance
  rs_frame_count :: nat
  rs_collector :: collector

text \<open>One pass through the body of the \<^verbatim>\<open>while\<close> loop, after \<^verbatim>\<open>car.step()\<close> has been taken.\<close>

definition loop_body :: "nat \<Rightarrow> run_state \<Rightarrow> run_state" where
  "loop_body tid s =
     (let distance_to_obstacle = get_distance_to_obstacles (rs_car s);
          s1 = s\<lparr>rs_min_distance_observed :=
                   dist_min (rs_min_distance_observed s) distance_to_obstacle\<rparr>;
          st = get_safety_state (rs_car s);
          s2 = (if st = SAFE then s1\<lparr>rs_safe_frames := rs_safe_frames s1 + 1\<rparr>
                else if st = MILD_UNSAFE
                then s1\<lparr>rs_mild_unsafe_frames := rs_mild_unsafe_frames s1 + 1\<rparr>
                else s1\<lparr>rs_unsafe_frames := rs_unsafe_frames s1 + 1\<rparr>);
          s3 = s2\<lparr>rs_collector :=
                   collect_frame_data (rs_collector s2) tid (rs_frame_count s2)
                     (current_position (rs_car s2)) distance_to_obstacle st\<rparr>
      in s3\<lparr>rs_frame_count := rs_frame_count s3 + 1\<rparr>)"

text \<open>
  \<^verbatim>\<open>while car.step() and frame_count < 1000\<close>: the step is taken first, on every test of the
  condition, and the frame limit is looked at only when the step returned true.
\<close>

function run_loop :: "nat \<Rightarrow> run_state \<Rightarrow> run_state" where
  "run_loop tid s =
     (let r = step (rs_car s); s' = s\<lparr>rs_car := snd r\<rparr>
      in if fst r \<and> rs_frame_count s' < 1000 then run_loop tid (loop_body tid s') else s')"
  by pat_completeness auto
termination
  by (relation "measure (\<lambda>(tid, s). 1000 - rs_frame_count s)")
     (auto simp: loop_body_def Let_def)

declare run_loop.simps [simp del]

definition run_single_test_state ::
  "point \<Rightarrow> point \<Rightarrow> point list \<Rightarrow> real \<Rightarrow> real \<Rightarrow> nat \<Rightarrow> collector \<Rightarrow> py_error + run_state" where
  "run_single_test_state start_pt end_pt obstacles barrier spd tid dc =
     (case HeadlessCarSimulator start_pt end_pt obstacles barrier spd of
        Inl e \<Rightarrow> Inl e
      | Inr c \<Rightarrow>
          Inr (run_loop tid
                 \<lparr> rs_car = c, rs_safe_frames = 0, rs_mild_unsafe_frames = 0,
                   rs_unsafe_frames = 0, rs_min_distance_observed = Infinity,
                   rs_frame_count = 0, rs_collector = dc \<rparr>))"

text \<open>
  \<^verbatim>\<open>run_single_test\<close>: the returned \<^verbatim>\<open>TestResult\<close>, with the data collector as the call
  leaves it.
\<close>

definition run_single_test ::
  "nat \<Rightarrow> point \<Rightarrow> point \<Rightarrow> point list \<Rightarrow> real \<Rightarrow> real \<Rightarrow> collector \<Rightarrow> string
     \<Rightarrow> py_error + (test_result \<times> collector)" where
  "run_single_test tid start_pt end_pt obstacles barrier spd dc descr =
     (case run_single_test_state start_pt end_pt obstacles barrier spd tid dc of
        Inl e \<Rightarrow> Inl e
      | Inr s \<Rightarrow>
          Inr (TestResult tid barrier (rs_frame_count s) (rs_safe_frames s)
                 (rs_mild_unsafe_frames s) (rs_unsafe_frames s)
                 (rs_min_distance_observed s) descr,
               rs_collector s))"

section \<open>The summary report\<close>

definition bind_err :: "py_error + 'a \<Rightarrow> ('a \<Rightarrow> py_error + 'b) \<Rightarrow> py_error + 'b" where
  "bind_err m f = (case m of Inl e \<Rightarrow> Inl e | Inr x \<Rightarrow> f x)"

text \<open>
  \<^verbatim>\<open>count / total * 100\<close> on two Python \<^verbatim>\<open>int\<close>s: true division, which raises
  \<^verbatim>\<open>ZeroDivisionError\<close> when the divisor is zero.
\<close>

definition percentage :: "nat \<Rightarrow> nat \<Rightarrow> py_error + real" where
  "percentage cnt tot =
     (if tot = 0 then Inl ZeroDivisionError else Inr (real cnt / real tot * 100))"

definition count_status :: "safety_state \<Rightarrow> test_result list \<Rightarrow> nat" where
  "count_status st results = length (filter (\<lambda>r. safety_status r = st) results)"

text \<open>
  \<^verbatim>\<open>grouped_results[result.description].append(result)\<close> on a \<^verbatim>\<open>defaultdict(list)\<close>: a
  dictionary keeps its keys in the order of their first insertion.
\<close>

fun group_append ::
  "(string \<times> test_result list) list \<Rightarrow> test_result \<Rightarrow> (string \<times> test_result list) list" where
  "group_append [] r = [(description r, [r])]"
| "group_append ((d, rs) # groups) r =
     (if d = description r then (d, rs @ [r]) # groups else (d, rs) # group_append groups r)"

definition grouped_results :: "test_result list \<Rightarrow> (string \<times> test_result list) list" where
  "grouped_results results = foldl group_append [] results"

text \<open>
  The line printed about the barrier distance of a group: \<open>Optimal b\<close> for
  "Optimal Barrier Distance: b", \<open>Best b n\<close> for "Best Barrier Distance: b (Unsafe frames: n)".
\<close>

datatype barrier_line = Optimal real | Best real nat

definition optimal_barrier :: "test_result list \<Rightarrow> py_error + barrier_line" where
  "optimal_barrier results =
     (let safe_tests = filter (\<lambda>r. safety_status r = SAFE) results
      in if safe_tests \<noteq> [] then
           bind_err (py_min_by tr_barrier_distance safe_tests)
             (\<lambda>optimal. Inr (Optimal (tr_barrier_distance optimal)))
         else
           bind_err (py_min_by unsafe_frames results)
             (\<lambda>best_test. Inr (Best (tr_barrier_distance best_test) (unsafe_frames best_test))))"

record group_report =
  gr_description :: string
  gr_safe_count :: nat
  gr_mild_unsafe_count :: nat
  gr_unsafe_count :: nat
  gr_total_count :: nat
  gr_safe_percent :: real
  gr_mild_unsafe_percent :: real
  gr_unsafe_percent :: real
  gr_barrier :: barrier_line

text \<open>The body of \<^verbatim>\<open>for description, results in grouped_results.items()\<close>.\<close>

definition report_group :: "string \<Rightarrow> test_result list \<Rightarrow> py_error + group_report" where
  "report_group descr results =
     (let safe_count = count_status SAFE results;
          mild_unsafe_count = count_status MILD_UNSAFE results;
          unsafe_count = count_status UNSAFE results;
          total_count = length results
      in bind_err (percentage safe_count total_count) (\<lambda>p_safe.
         bind_err (percentage mild_unsafe_count total_count) (\<lambda>p_mild.
         bind_err (percentage unsafe_count total_count) (\<lambda>p_unsafe.
         bind_err (optimal_barrier results) (\<lambda>line.
           Inr \<lparr> gr_description = descr, gr_safe_count = safe_count,
                 gr_mild_unsafe_count = mild_unsafe_count, gr_unsafe_count = unsafe_count,
                 gr_total_count = total_count, gr_safe_percent = p_safe,
                 gr_mild_unsafe_percent = p_mild, gr_unsafe_percent = p_unsafe,
                 gr_barrier = line \<rparr>)))))"

fun report_groups :: "(string \<times> test_result list) list \<Rightarrow> py_error + group_report list" where
  "report_groups [] = Inr []"
| "report_groups ((descr, results) # groups) =
     bind_err (report_group descr results) (\<lambda>g.
     bind_err (report_groups groups) (\<lambda>gs. Inr (g # gs)))"

record summary =
  sm_groups :: "group_report list"
  sm_total_tests :: nat
  sm_total_safe :: nat
  sm_total_mild_unsafe :: nat
  sm_total_unsafe :: nat
  sm_safe_percent :: real
  sm_mild_unsafe_percent :: real
  sm_unsafe_percent :: real
  sm_overall_optimal :: "real option"

text \<open>
  \<^verbatim>\<open>generate_test_summary\<close>: what it prints, as a value, or the exception that ends it.
  The overall optimal barrier distance is printed only when some test is SAFE.
\<close>

definition generate_test_summary :: "test_result list \<Rightarrow> py_error + summary" where
  "generate_test_summary results =
     bind_err (report_groups (grouped_results results)) (\<lambda>groups.
       (let total_safe = count_status SAFE results;
            total_mild_unsafe = count_status MILD_UNSAFE results;
            total_unsafe = count_status UNSAFE results;
            total_tests = length results
        in bind_err (percentage total_safe total_tests) (\<lambda>p_safe.
           bind_err (percentage total_mild_unsafe total_tests) (\<lambda>p_mild.
           bind_err (percentage total_unsafe total_tests) (\<lambda>p_unsafe.
             (let safe_tests = filter (\<lambda>r. safety_status r = SAFE) results
              in bind_err (if safe_tests \<noteq> []
                           then bind_err (py_min_by tr_barrier_distance safe_tests)
                                  (\<lambda>overall_optimal. Inr (Some (tr_barrier_distance overall_optimal)))
                           else Inr None) (\<lambda>overall.
                   Inr \<lparr> sm_groups = groups, sm_total_tests = total_tests,
                         sm_total_safe = total_safe, sm_total_mild_unsafe = total_mild_unsafe,
                         sm_total_unsafe = total_unsafe, sm_safe_percent = p_safe,
                         sm_mild_unsafe_percent = p_mild, sm_unsafe_percent = p_unsafe,
                         sm_overall_optimal = overall \<rparr>)))))))"

section \<open>The batch runner\<close>

text \<open>
  A row of the scenario file as \<^verbatim>\<open>csv.DictReader\<close> delivers it: a dictionary from column
  names to cells.  A cell is its text together with what Python's \<^verbatim>\<open>float\<close> makes of that
  text: \<open>Some x\<close> when the text is numeric, \<open>None\<close> when \<^verbatim>\<open>float\<close> raises \<^verbatim>\<open>ValueError\<close>.
  A column the file does not have is a key the dictionary does not have.  Every row is
  taken to be as long as the header, so that no cell is Python's \<^verbatim>\<open>None\<close>.
\<close>

type_synonym cell = "string \<times> real option"

type_synonym row = "(string \<times> cell) list"

definition row_get :: "row \<Rightarrow> string \<Rightarrow> py_error + cell" where
  "row_get test key = (case map_of test key of None \<Rightarrow> Inl KeyError | Some c \<Rightarrow> Inr c)"

definition py_float :: "cell \<Rightarrow> py_error + real" where
  "py_float c = (case snd c of None \<Rightarrow> Inl ValueError | Some x \<Rightarrow> Inr x)"

definition float_field :: "row \<Rightarrow> string \<Rightarrow> py_error + real" where
  "float_field test key = bind_err (row_get test key) py_float"

record scenario =
  sc_description :: string
  sc_start_point :: point
  sc_end_point :: point
  sc_obstacle_positions :: "point list"
  sc_barrier_distance :: real
  sc_speed :: real

text \<open>
  The part of the loop body of \<^verbatim>\<open>run_tests_from_csv\<close> before the simulation: the three
  columns that are printed are looked up first, then the fields are converted in the
  order of the source.  A missing speed is \<^verbatim>\<open>0.02\<close>, a missing description
  \<^verbatim>\<open>'No description'\<close>.
\<close>

definition parse_test :: "row \<Rightarrow> py_error + scenario" where
  "parse_test test =
     (let descr = (case map_of test ''description'' of
                     None \<Rightarrow> ''No description'' | Some c \<Rightarrow> fst c)
      in bind_err (row_get test ''barrier_distance'') (\<lambda>_.
         bind_err (row_get test ''obstacle_x'') (\<lambda>_.
         bind_err (row_get test ''obstacle_y'') (\<lambda>_.
         bind_err (float_field test ''start_x'') (\<lambda>start_x.
         bind_err (float_field test ''start_y'') (\<lambda>start_y.
         bind_err (float_field test ''end_x'') (\<lambda>end_x.
         bind_err (float_field test ''end_y'') (\<lambda>end_y.
         bind_err (float_field test ''obstacle_x'') (\<lambda>obstacle_x.
         bind_err (float_field test ''obstacle_y'') (\<lambda>obstacle_y.
         bind_err (float_field test ''barrier_distance'') (\<lambda>barrier.
         bind_err (case map_of test ''speed'' of
                     None \<Rightarrow> Inr 0.02 | Some c \<Rightarrow> py_float c) (\<lambda>spd.
           Inr \<lparr> sc_description = descr, sc_start_point = (start_x, start_y),
                 sc_end_point = (end_x, end_y),
                 sc_obstacle_positions = [(obstacle_x, obstacle_y)],
                 sc_barrier_distance = barrier, sc_speed = spd \<rparr>))))))))))))"

text \<open>One iteration of \<^verbatim>\<open>for i, test in enumerate(tests)\<close>, on the data collector.\<close>

definition run_test_row :: "nat \<Rightarrow> row \<Rightarrow> collector \<Rightarrow> py_error + collector" where
  "run_test_row i test dc =
     bind_err (parse_test test) (\<lambda>sc.
     bind_err (run_single_test (i + 1) (sc_start_point sc) (sc_end_point sc)
                 (sc_obstacle_positions sc) (sc_barrier_distance sc) (sc_speed sc) dc
                 (sc_description sc)) (\<lambda>(result, dc').
       Inr (dc'\<lparr>test_results := test_results dc' @ [result]\<rparr>)))"

text \<open>
  The whole loop.  It sits inside one \<^verbatim>\<open>try\<close> block: an exception leaves the loop, and
  the collector is returned with the error as it was when the exception was raised.
\<close>

fun run_test_rows :: "nat \<Rightarrow> row list \<Rightarrow> collector \<Rightarrow> (py_error \<times> collector) + collector" where
  "run_test_rows i [] dc = Inr dc"
| "run_test_rows i (test # rest) dc =
     (case run_test_row i test dc of
        Inl e \<Rightarrow> Inl (e, dc)
      | Inr dc' \<Rightarrow> run_test_rows (i + 1) rest dc')"

text \<open>
  What a call of \<^verbatim>\<open>run_tests_from_csv\<close> comes to: either every test ran and the summary was
  printed, or the \<^verbatim>\<open>except\<close> clause printed an error and the function returned.  In both
  cases the list holds the results of the tests that were run.  Reading the file, saving
  the two result files and drawing the plots are input and output, and are left out.
\<close>

datatype batch_outcome =
  AllTestsCompleted "test_result list" summary
| ErrorRunningTests py_error "test_result list"

definition run_tests_from_csv :: "row list \<Rightarrow> batch_outcome" where
  "run_tests_from_csv tests =
     (case run_test_rows 0 tests TestDataCollector of
        Inl (e, dc) \<Rightarrow> ErrorRunningTests e (test_results dc)
      | Inr dc \<Rightarrow>
          (case generate_test_summary (test_results dc) of
             Inl e \<Rightarrow> ErrorRunningTests e (test_results dc)
           | Inr sm \<Rightarrow> AllTestsCompleted (test_results dc) sm))"

section \<open>Interactive parameter input\<close>

text \<open>
  \<^verbatim>\<open>get_barrier_distance\<close> of \<^verbatim>\<open>moving_car.py\<close>.  The argument is what \<^verbatim>\<open>float\<close> makes of
  the line the user typed (\<open>None\<close> for \<^verbatim>\<open>ValueError\<close>).  \<^verbatim>\<open>max(0.5, x)\<close> returns \<open>x\<close> only
  when it is strictly greater.
\<close>

definition get_barrier_distance :: "real option \<Rightarrow> real" where
  "get_barrier_distance typed =
     (case typed of
        None \<Rightarrow> 1.5
      | Some barrier_dist \<Rightarrow> (if barrier_dist > 0.5 then barrier_dist else 0.5))"

section \<open>Facts about the vector operations\<close>

lemma norm_vec_nonneg: "0 \<le> norm_vec p"
  by (simp add: norm_vec_def)

lemma norm_vec_zero_iff: "(norm_vec p = 0) = (p = (0, 0))"
proof -
  have "(fst p * fst p + snd p * snd p = 0) = (fst p = 0 \<and> snd p = 0)"
    by (simp add: sum_power2_eq_zero_iff flip: power2_eq_square)
  then show ?thesis
    by (simp add: norm_vec_def prod_eq_iff)
qed

lemma norm_vec_smul: "norm_vec (smul p k) = \<bar>k\<bar> * norm_vec p"
proof -
  have "fst p * k * (fst p * k) + snd p * k * (snd p * k) = (k * k) * (fst p * fst p + snd p * snd p)"
    by (simp add: algebra_simps)
  then show ?thesis
    by (simp add: norm_vec_def smul_def real_sqrt_mult)
qed

lemma vdiv_nonzero: "k \<noteq> 0 \<Longrightarrow> vdiv p k = Inr (smul p (1 / k))"
  by (simp add: vdiv_def smul_def)

lemma vsub_vadd_cancel: "vsub (vadd a x) a = x"
  by (simp add: vsub_def vadd_def)

lemma vsub_self: "vsub p p = (0, 0)"
  by (simp add: vsub_def)

lemma vsub_eq_zero_iff: "(vsub p q = (0, 0)) = (p = q)"
  by (auto simp: vsub_def prod_eq_iff)

lemma ensure_safe_loop_Cons:
  "ensure_safe_loop b (ob # rest) sp =
     ensure_safe_loop b rest
       (if norm_vec (vsub sp ob) < b
        then (if 0 < norm_vec (vsub sp ob)
              then vadd ob (smul (smul (smul (vsub sp ob) (1 / norm_vec (vsub sp ob))) b) 1.1)
              else vadd ob (smul (smul (vsub sp ob) b) 1.1))
        else sp)"
  by (simp add: Let_def vdiv_nonzero)

lemma ensure_safe_loop_total: "\<exists>q. ensure_safe_loop b obs sp = Inr q"
proof (induction obs arbitrary: sp)
  case Nil
  show ?case by simp
next
  case (Cons ob rest)
  show ?case unfolding ensure_safe_loop_Cons by (rule Cons.IH)
qed

lemma ensure_safe_point_total: "\<exists>q. ensure_safe_point obs b p = Inr q"
  unfolding ensure_safe_point_def by (rule ensure_safe_loop_total)

lemma ensure_safe_loop_fixed:
  "\<forall>ob\<in>set obs. ob = p \<or> b \<le> norm_vec (vsub p ob) \<Longrightarrow> ensure_safe_loop b obs p = Inr p"
proof (induction obs)
  case Nil
  show ?case by simp
next
  case (Cons ob rest)
  have step: "(if norm_vec (vsub p ob) < b
        then (if 0 < norm_vec (vsub p ob)
              then vadd ob (smul (smul (smul (vsub p ob) (1 / norm_vec (vsub p ob))) b) 1.1)
              else vadd ob (smul (smul (vsub p ob) b) 1.1))
        else p) = p"
  proof (cases "ob = p")
    case True
    then show ?thesis by (simp add: vsub_self norm_vec_zero_iff[THEN iffD2] smul_def vadd_def)
  next
    case False
    with Cons.prems have "b \<le> norm_vec (vsub p ob)" by simp
    then show ?thesis by simp
  qed
  from Cons.prems have "\<forall>ob\<in>set rest. ob = p \<or> b \<le> norm_vec (vsub p ob)" by simp
  then have "ensure_safe_loop b rest p = Inr p" by (rule Cons.IH)
  then show ?case unfolding ensure_safe_loop_Cons step .
qed

lemma ensure_safe_single:
  assumes "ensure_safe_point [ob] b p = Inr q"
  shows "q = ob \<or> b \<le> norm_vec (vsub q ob)"
proof (cases "norm_vec (vsub p ob) < b")
  case False
  with assms show ?thesis by (simp add: ensure_safe_point_def ensure_safe_loop_Cons del: ensure_safe_loop.simps(2))
next
  case close: True
  show ?thesis
  proof (cases "0 < norm_vec (vsub p ob)")
    case True
    let ?n = "norm_vec (vsub p ob)"
    from close True assms
    have q: "q = vadd ob (smul (smul (smul (vsub p ob) (1 / ?n)) b) 1.1)"
      by (simp add: ensure_safe_point_def ensure_safe_loop_Cons del: ensure_safe_loop.simps(2))
    have bpos: "0 < b" using close True by linarith
    have "norm_vec (vsub q ob) = 1.1 * (\<bar>b\<bar> * (\<bar>1 / ?n\<bar> * ?n))"
      unfolding q vsub_vadd_cancel norm_vec_smul by simp
    also have "\<dots> = 1.1 * b" using True bpos by simp
    finally show ?thesis using bpos by simp
  next
    case False
    then have "norm_vec (vsub p ob) = 0" using norm_vec_nonneg[of "vsub p ob"] by linarith
    then have z: "vsub p ob = (0, 0)" by (simp add: norm_vec_zero_iff)
    from close False assms have "q = vadd ob (smul (smul (vsub p ob) b) 1.1)"
      by (simp add: ensure_safe_point_def ensure_safe_loop_Cons del: ensure_safe_loop.simps(2))
    then show ?thesis unfolding z by (simp add: smul_def vadd_def)
  qed
qed


lemma ensure_safe_point_not_Inl: "ensure_safe_point obs b p \<noteq> Inl e"
  using ensure_safe_point_total[of obs b p] by auto

lemma main_direction_total:
  "\<exists>d. (if norm_vec v > 0 then vdiv v (norm_vec v) else Inr v) = Inr d"
  by (simp add: vdiv_nonzero)

lemma plan_obstacle_shape:
  assumes P: "\<And>raw w. ensure_safe_point obs b raw = Inr w \<Longrightarrow> P w"
  shows "\<exists>added cur'. plan_obstacle s e obs b (pth, cur) ob = Inr (pth @ added, cur')
      \<and> (\<forall>w\<in>set added. P w)"
proof -
  obtain d where d: "(if norm_vec (vsub e s) > 0 then vdiv (vsub e s) (norm_vec (vsub e s))
                      else Inr (vsub e s)) = Inr d"
    using main_direction_total by blast
  let ?perp = "(- snd d, fst d)"
  let ?side1 = "vadd ob (smul (smul ?perp b) 1.5)"
  let ?side2 = "vsub ob (smul (smul ?perp b) 1.5)"
  let ?best = "if norm_vec (vsub e ?side1) < norm_vec (vsub e ?side2) then ?side1 else ?side2"
  let ?raw = "vadd (vsub ob (smul d (b * 1.2)))
                   (smul (smul ?perp (sgn (dot ?perp (vsub ?best ob)))) (b * 1.2))"
  obtain ap where ap: "ensure_safe_point obs b ?raw = Inr ap"
    using ensure_safe_point_total by blast
  obtain av where av: "ensure_safe_point obs b ?best = Inr av"
    using ensure_safe_point_total by blast
  have Pap: "P ap" and Pav: "P av" using P ap av by blast+
  let ?st1 = "if norm_vec (vsub ap cur) > 0.1 then (pth @ [ap], ap) else (pth, cur)"
  let ?st2 = "if norm_vec (vsub av (snd ?st1)) > 0.1 then (fst ?st1 @ [av], av) else ?st1"
  have eq: "plan_obstacle s e obs b (pth, cur) ob = Inr ?st2"
    unfolding plan_obstacle_def Let_def fst_conv snd_conv d sum.case ap av ..
  have "\<exists>added cur'. ?st2 = (pth @ added, cur') \<and> set added \<subseteq> {ap, av}"
    by (cases "norm_vec (vsub ap cur) > 0.1"; cases "norm_vec (vsub av (snd ?st1)) > 0.1") auto
  then obtain added cur' where "?st2 = (pth @ added, cur')" "set added \<subseteq> {ap, av}"
    by blast
  with Pap Pav eq show ?thesis by (intro exI[of _ added] exI[of _ cur']) auto
qed

lemma plan_obstacles_shape:
  assumes P: "\<And>raw w. ensure_safe_point obs b raw = Inr w \<Longrightarrow> P w"
  shows "\<exists>added cur'. plan_obstacles s e obs b (pth, cur) todo = Inr (pth @ added, cur')
      \<and> (\<forall>w\<in>set added. P w)"
proof (induction todo arbitrary: pth cur)
  case Nil
  show ?case by (intro exI[of _ "[]"] exI[of _ cur]) simp
next
  case (Cons ob rest)
  obtain a1 c1 where 1: "plan_obstacle s e obs b (pth, cur) ob = Inr (pth @ a1, c1)"
    and a1: "\<forall>w\<in>set a1. P w"
    using plan_obstacle_shape[of obs b P s e pth cur ob] P by blast
  obtain a2 c2 where 2: "plan_obstacles s e obs b (pth @ a1, c1) rest = Inr ((pth @ a1) @ a2, c2)"
    and a2: "\<forall>w\<in>set a2. P w"
    using Cons.IH[of "pth @ a1" c1] by blast
  show ?case using 1 2 a1 a2 by (intro exI[of _ "a1 @ a2"] exI[of _ c2]) auto
qed

lemma clean_loop_shape: "\<exists>kept. clean_loop acc pts = acc @ kept \<and> set kept \<subseteq> set pts"
proof (induction pts arbitrary: acc)
  case Nil
  show ?case by simp
next
  case (Cons p rest)
  show ?case
  proof (cases "length acc = 0 \<or> norm_vec (vsub p (last acc)) > 0.1")
    case True
    obtain kept where "clean_loop (acc @ [p]) rest = (acc @ [p]) @ kept" "set kept \<subseteq> set rest"
      using Cons.IH[of "acc @ [p]"] by blast
    with True show ?thesis by (intro exI[of _ "p # kept"]) auto
  next
    case False
    obtain kept where "clean_loop acc rest = acc @ kept" "set kept \<subseteq> set rest"
      using Cons.IH[of acc] by blast
    with False show ?thesis by (intro exI[of _ kept]) auto
  qed
qed

lemma calculate_safe_path_shape:
  assumes P: "\<And>raw w. ensure_safe_point obs b raw = Inr w \<Longrightarrow> P w" and ne: "obs \<noteq> []"
  shows "\<exists>ws. calculate_safe_path s e obs b = Inr (s # ws) \<and> (\<forall>w\<in>set ws. P w)"
proof -
  obtain added cur' where pl: "plan_obstacles s e obs b ([s], s) obs = Inr ([s] @ added, cur')"
    and added: "\<forall>w\<in>set added. P w"
    using plan_obstacles_shape[of obs b P s e "[s]" s obs] P by blast
  obtain fp where fp: "ensure_safe_point obs b e = Inr fp"
    using ensure_safe_point_total by blast
  have Pfp: "P fp" using P fp by blast
  let ?path = "if norm_vec (vsub fp cur') > 0.1 then (s # added) @ [fp] else s # added"
  have eq: "calculate_safe_path s e obs b = Inr (clean_loop [] ?path)"
    using ne pl fp by (simp add: calculate_safe_path_def)
  obtain rest where rest: "?path = s # rest" "set rest \<subseteq> set added \<union> {fp}"
    by (cases "norm_vec (vsub fp cur') > 0.1") auto
  obtain kept where kept: "clean_loop [s] rest = [s] @ kept" "set kept \<subseteq> set rest"
    using clean_loop_shape[of "[s]" rest] by blast
  have "clean_loop [] ?path = s # kept"
    unfolding rest(1) using kept(1) by simp
  moreover have "\<forall>w\<in>set kept. P w"
    using kept(2) rest(2) added Pfp by auto
  ultimately show ?thesis using eq by simp
qed

lemma calculate_safe_path_total: "\<exists>p. calculate_safe_path s e obs b = Inr p"
proof (cases "obs = []")
  case True
  then show ?thesis by (simp add: calculate_safe_path_def)
next
  case False
  then show ?thesis using calculate_safe_path_shape[of obs b "\<lambda>_. True" s e] by blast
qed

subsection \<open>Comparing norms of concrete points\<close>

lemma norm_vec_less_const:
  "0 \<le> c \<Longrightarrow> (norm_vec p < c) = (fst p * fst p + snd p * snd p < c * c)"
  unfolding norm_vec_def by (metis abs_of_nonneg real_sqrt_abs2 real_sqrt_less_iff)

lemma const_less_norm_vec:
  "0 \<le> c \<Longrightarrow> (c < norm_vec p) = (c * c < fst p * fst p + snd p * snd p)"
  unfolding norm_vec_def by (metis abs_of_nonneg real_sqrt_abs2 real_sqrt_less_iff)

lemma norm_vec_less_norm_vec:
  "(norm_vec p < norm_vec q) = (fst p * fst p + snd p * snd p < fst q * fst q + snd q * snd q)"
  unfolding norm_vec_def by simp

lemma less_norm_vec_scaled:
  "0 \<le> c \<Longrightarrow> 0 < k \<Longrightarrow>
     (c < norm_vec p * k) = (c * c < (fst p * fst p + snd p * snd p) * (k * k))"
proof -
  assume c: "0 \<le> c" and k: "0 < k"
  have "(c < norm_vec p * k) = (c / k < norm_vec p)" using k by (simp add: field_simps)
  also have "\<dots> = ((c / k) * (c / k) < fst p * fst p + snd p * snd p)"
    using c k by (simp add: const_less_norm_vec)
  also have "\<dots> = (c * c < (fst p * fst p + snd p * snd p) * (k * k))"
    using k by (simp add: field_simps)
  finally show ?thesis .
qed

lemma norm_vec_x_axis: "norm_vec (x, 0) = \<bar>x\<bar>"
  by (simp add: norm_vec_def)

lemmas vec_ops = vadd_def vsub_def smul_def dot_def vdiv_def

lemmas norm_eval =
  norm_vec_less_const const_less_norm_vec norm_vec_less_norm_vec norm_vec_x_axis
  less_norm_vec_scaled

subsection \<open>A worked scenario: one obstacle in the middle of a straight run\<close>

text \<open>
  Start \<open>(0, 0)\<close>, end \<open>(4, 0)\<close>, one obstacle at \<open>(2, 0)\<close>, barrier distance \<open>1\<close>.  The
  planner passes the obstacle on the side of negative \<open>y\<close>: both sides are equally far
  from the end, and the comparison \<^verbatim>\<open>dist1 < dist2\<close> is strict.
\<close>

lemma detour_safe_points:
  "ensure_safe_point [(2, 0)] 1 (4/5, - (6/5)) = Inr (4/5, - (6/5))"
  "ensure_safe_point [(2, 0)] 1 (2, - (3/2)) = Inr (2, - (3/2))"
  "ensure_safe_point [(2, 0)] 1 (4, 0) = Inr (4, 0)"
  by (simp_all add: ensure_safe_point_def vec_ops norm_eval)

lemma detour_plan_obstacle:
  "plan_obstacle (0, 0) (4, 0) [(2, 0)] 1 ([(0, 0)], (0, 0)) (2, 0)
     = Inr ([(0, 0), (4/5, - (6/5)), (2, - (3/2))], (2, - (3/2)))"
  by (simp add: plan_obstacle_def Let_def vec_ops norm_eval detour_safe_points)

lemma detour_path:
  "calculate_safe_path (0, 0) (4, 0) [(2, 0)] 1
     = Inr [(0, 0), (4/5, - (6/5)), (2, - (3/2)), (4, 0)]"
  by (simp add: calculate_safe_path_def detour_plan_obstacle detour_safe_points vec_ops norm_eval)

section \<open>The stepper\<close>

lemma step_after_end: "has_reached_end c \<Longrightarrow> step c = (False, c)"
  by (simp add: step_def)

text \<open>
  A step that completes a segment other than the last one: the position is computed
  from the endpoints read before the index advanced, at progress \<open>0\<close>, which is the
  start of the segment just completed.
\<close>

lemma step_segment_change:
  assumes "\<not> has_reached_end c" and "current_path_index c + 2 < length (path c)"
    and "progress c + speed c \<ge> 1"
  shows "step c = (True, c\<lparr>progress := 0, current_path_index := current_path_index c + 1,
                           current_position := path c ! current_path_index c\<rparr>)"
  using assms by (simp add: step_def Let_def vec_ops)

text \<open>A step that completes the last segment sets the flag and leaves the position alone.\<close>

lemma step_reaching_end:
  assumes "\<not> has_reached_end c" and "current_path_index c + 2 = length (path c)"
    and "progress c + speed c \<ge> 1"
  shows "step c = (False, c\<lparr>progress := 0, current_path_index := current_path_index c + 1,
                            has_reached_end := True\<rparr>)"
  using assms by (simp add: step_def Let_def vec_ops)

text \<open>
  Claim C1.  The claim: when a step pushes the progress to at least \<open>1\<close> and the advanced
  index is not yet the last segment boundary, the new position is the start point of the
  newly entered segment.  The code does otherwise.  In the worked scenario with speed
  \<open>1/2\<close> the first step moves the car half way along the first segment, to
  \<open>(2/5, -3/5)\<close>; the second step completes the segment, the index becomes \<open>1\<close> and the
  progress \<open>0\<close>, and the position is \<open>(0, 0)\<close>, the start of the segment just left, where
  the newly entered segment starts at \<open>(4/5, -6/5)\<close>.
\<close>

theorem segment_change_returns_to_old_segment_start:
  "\<exists>c0 c1 c2.
     HeadlessCarSimulator (0, 0) (4, 0) [(2, 0)] 1 (1/2) = Inr c0
     \<and> path c0 = [(0, 0), (4/5, - (6/5)), (2, - (3/2)), (4, 0)]
     \<and> step c0 = (True, c1) \<and> current_path_index c1 = 0
     \<and> current_position c1 = (2/5, - (3/5))
     \<and> step c1 = (True, c2) \<and> current_path_index c2 = 1 \<and> progress c2 = 0
     \<and> \<not> has_reached_end c2
     \<and> current_position c2 = (0, 0)
     \<and> path c2 ! current_path_index c2 = (4/5, - (6/5))"
  by (simp add: HeadlessCarSimulator_def detour_path step_def Let_def vec_ops)

text \<open>
  Claim C4.  The claim: when the stepper reaches the end, the current position equals the
  final point of the path, and every later step changes nothing and returns "finished".
  The second half holds (\<open>step_after_end\<close>).  The first half fails: the step that sets
  the flag does not touch the position.  With no obstacles, start \<open>(0, 0)\<close>, end \<open>(1, 0)\<close>
  and speed \<open>1/2\<close>, the second step reaches the end and the position is still \<open>(1/2, 0)\<close>,
  not the final point \<open>(1, 0)\<close>; the third step is a no-op.
\<close>

theorem reached_end_position_stays_short_of_final_point:
  "\<exists>c0 c1 c2.
     HeadlessCarSimulator (0, 0) (1, 0) [] 1 (1/2) = Inr c0
     \<and> step c0 = (True, c1) \<and> step c1 = (False, c2)
     \<and> has_reached_end c2 \<and> last (path c2) = (1, 0) \<and> current_position c2 = (1/2, 0)
     \<and> step c2 = (False, c2)"
  by (simp add: HeadlessCarSimulator_def calculate_safe_path_def step_def Let_def vec_ops)

section \<open>The summary of an empty result list\<close>

text \<open>
  Claim C6.  The claim: for an empty list of results the summary completes without an
  exception and reports that there is no data.  The code divides by the number of tests
  in the overall statistics: on the empty list \<^verbatim>\<open>generate_test_summary\<close> raises
  \<^verbatim>\<open>ZeroDivisionError\<close>, and a batch of zero scenarios ends in the error branch.
\<close>

theorem summary_of_no_results_raises:
  "generate_test_summary [] = Inl ZeroDivisionError
   \<and> run_tests_from_csv [] = ErrorRunningTests ZeroDivisionError []"
  by (simp add: run_tests_from_csv_def generate_test_summary_def grouped_results_def
        bind_err_def percentage_def count_status_def TestDataCollector_def)

section \<open>Python's \<^verbatim>\<open>min\<close>\<close>

text \<open>
  The element \<^verbatim>\<open>min\<close> returns splits the sequence: everything before it has a strictly
  larger key, everything after it a key at least as large.
\<close>

lemma min_by_loop_le_best: "key (min_by_loop key best xs) \<le> key best"
proof (induction xs arbitrary: best)
  case Nil
  show ?case by simp
next
  case (Cons x xs)
  show ?case
  proof (cases "key x < key best")
    case True
    have "key (min_by_loop key x xs) \<le> key x" by (rule Cons.IH)
    with True show ?thesis by simp
  next
    case False
    then show ?thesis using Cons.IH[of best] by simp
  qed
qed

lemma min_by_loop_decomp:
  "\<exists>pre post. best # xs = pre @ min_by_loop key best xs # post
     \<and> (\<forall>y\<in>set pre. key (min_by_loop key best xs) < key y)
     \<and> (\<forall>y\<in>set post. key (min_by_loop key best xs) \<le> key y)"
proof (induction xs arbitrary: best)
  case Nil
  show ?case by (intro exI[of _ "[]"]) simp
next
  case (Cons x xs)
  show ?case
  proof (cases "key x < key best")
    case True
    let ?m = "min_by_loop key x xs"
    obtain pre post where d: "x # xs = pre @ ?m # post"
      and pre: "\<forall>y\<in>set pre. key ?m < key y"
      and post: "\<forall>y\<in>set post. key ?m \<le> key y"
      using Cons.IH[of x] by blast
    have le: "key ?m \<le> key x" by (rule min_by_loop_le_best)
    have m: "min_by_loop key best (x # xs) = ?m" using True by simp
    have 1: "best # x # xs = (best # pre) @ ?m # post" using d by simp
    have 2: "\<forall>y\<in>set (best # pre). key ?m < key y"
      using pre le True by auto
    show ?thesis unfolding m using 1 2 post by blast
  next
    case False
    let ?m = "min_by_loop key best xs"
    have m: "min_by_loop key best (x # xs) = ?m" using False by simp
    obtain pre post where d: "best # xs = pre @ ?m # post"
      and pre: "\<forall>y\<in>set pre. key ?m < key y"
      and post: "\<forall>y\<in>set post. key ?m \<le> key y"
      using Cons.IH[of best] by blast
    show ?thesis
    proof (cases pre)
      case Nil
      have e: "best # xs = ?m # post" using d unfolding Nil append_Nil .
      have b: "?m = best" using e by (metis list.inject)
      have p: "post = xs" using e by (metis list.inject)
      have 1: "best # x # xs = [] @ ?m # (x # xs)" using b by simp
      have 2: "\<forall>y\<in>set (x # xs). key ?m \<le> key y" using post p b False by auto
      have 3: "\<forall>y\<in>set []. key ?m < key y" by simp
      show ?thesis unfolding m using 1 2 3 by blast
    next
      case (Cons a pre')
      have e: "best # xs = a # (pre' @ ?m # post)" using d unfolding Cons append_Cons .
      have a: "a = best" using e by (metis list.inject)
      have d': "xs = pre' @ ?m # post" using e by (metis list.inject)
      have lt: "key ?m < key best" using pre Cons a by simp
      have 1: "best # x # xs = (best # x # pre') @ ?m # post"
        using d' by (metis append_Cons)
      have 2: "\<forall>y\<in>set (best # x # pre'). key ?m < key y"
        using pre Cons a lt False by auto
      show ?thesis unfolding m using 1 2 post by blast
    qed
  qed
qed

lemma min_by_loop_in_set: "min_by_loop key best xs \<in> set (best # xs)"
proof -
  define m where "m = min_by_loop key best xs"
  obtain pre post where d: "best # xs = pre @ m # post"
    using min_by_loop_decomp[of best xs key] unfolding m_def by blast
  have "m \<in> set (pre @ m # post)" by simp
  then have "m \<in> set (best # xs)" using d by metis
  then show ?thesis unfolding m_def .
qed

lemma min_by_loop_least:
  assumes y: "y \<in> set (best # xs)"
  shows "key (min_by_loop key best xs) \<le> key y"
proof -
  define m where "m = min_by_loop key best xs"
  obtain pre post where d: "best # xs = pre @ m # post"
      and pre: "\<forall>y\<in>set pre. key m < key y"
      and post: "\<forall>y\<in>set post. key m \<le> key y"
    using min_by_loop_decomp[of best xs key] unfolding m_def by blast
  have "y \<in> set (pre @ m # post)" using y d by metis
  then consider "y \<in> set pre" | "y = m" | "y \<in> set post" by auto
  then have "key m \<le> key y"
  proof cases
    case 1
    with pre have "key m < key y" by blast
    then show ?thesis by simp
  next
    case 2
    then show ?thesis by simp
  next
    case 3
    with post show ?thesis by blast
  qed
  then show ?thesis unfolding m_def .
qed

lemma min_by_loop_Min: "key (min_by_loop key best xs) = Min (key ` set (best # xs))"
proof -
  have 1: "finite (key ` set (best # xs))" by simp
  have 2: "\<And>v. v \<in> key ` set (best # xs) \<Longrightarrow> key (min_by_loop key best xs) \<le> v"
    using min_by_loop_least[of _ best xs key] by blast
  have 3: "key (min_by_loop key best xs) \<in> key ` set (best # xs)"
    using min_by_loop_in_set[of key best xs] by blast
  show ?thesis using Min_eqI[OF 1 2 3] by simp
qed

section \<open>Safety classification\<close>

lemma get_distance_no_obstacles:
  "obstacle_positions c = [] \<Longrightarrow> get_distance_to_obstacles c = Infinity"
  by (simp add: get_distance_to_obstacles_def)

lemma get_distance_is_minimum:
  assumes "obstacle_positions c \<noteq> []"
  shows "get_distance_to_obstacles c =
           Finite (Min ((\<lambda>ob. norm_vec (vsub (current_position c) ob)) ` set (obstacle_positions c)))"
proof -
  obtain ob rest where obs: "obstacle_positions c = ob # rest"
    using assms by (cases "obstacle_positions c") auto
  show ?thesis
    unfolding get_distance_to_obstacles_def obs
    using min_by_loop_Min[of "\<lambda>x. x" "norm_vec (vsub (current_position c) ob)"
            "map (\<lambda>ob. norm_vec (vsub (current_position c) ob)) rest"]
    by simp
qed

lemma HeadlessCarSimulator_fields:
  "\<exists>p. calculate_safe_path s e obs b = Inr p \<and>
     HeadlessCarSimulator s e obs b sp =
       Inr \<lparr> start_point = s, end_point = e, obstacle_positions = obs,
             barrier_distance = b, speed = sp, current_position = s,
             path = p, current_path_index = 0, progress = 0, has_reached_end = False \<rparr>"
  using calculate_safe_path_total[of s e obs b] by (auto simp: HeadlessCarSimulator_def)

text \<open>
  Claim C3.  The claim: the classification is a function of the minimum distance \<open>d\<close> to
  an obstacle alone, UNSAFE exactly when \<open>d < 0.5\<close>, MILD_UNSAFE exactly when
  \<open>0.5 \<le> d < barrier_distance\<close>, SAFE exactly when \<open>d \<ge> barrier_distance\<close>, and SAFE with
  no obstacles.  The third equivalence fails when the barrier distance is below the
  physical radius \<open>0.5\<close>, which the simulator accepts: in the initial state of a run with
  the obstacle at distance \<open>0.3\<close> and barrier distance \<open>0.2\<close> the distance is at least the
  barrier distance and the state is UNSAFE.
\<close>

theorem safe_classification_fails_for_small_barrier:
  "\<exists>c. HeadlessCarSimulator (0, 0) (4, 0) [(3/10, 0)] (1/5) (1/2) = Inr c
     \<and> barrier_distance c = 1/5
     \<and> get_distance_to_obstacles c = Finite (3/10)
     \<and> get_safety_state c = UNSAFE"
proof -
  obtain p where "HeadlessCarSimulator (0, 0) (4, 0) [(3/10, 0)] (1/5) (1/2) =
       Inr \<lparr> start_point = (0, 0), end_point = (4, 0), obstacle_positions = [(3/10, 0)],
             barrier_distance = 1/5, speed = 1/2, current_position = (0, 0),
             path = p, current_path_index = 0, progress = 0, has_reached_end = False \<rparr>"
    using HeadlessCarSimulator_fields by blast
  then show ?thesis
    by (simp add: get_safety_state_def get_distance_to_obstacles_def vsub_def norm_vec_x_axis)
qed

text \<open>
  Claim C3, amended.  The test against the physical radius comes first, so SAFE is
  exactly \<open>d \<ge> 0.5\<close> and \<open>d \<ge> barrier_distance\<close>; the other two equivalences are as
  claimed.  \<open>d\<close> is the least distance from the current position to an obstacle; with no
  obstacles it is infinite and the state is SAFE.
\<close>

theorem safety_state_classification:
  "(\<forall>d. get_distance_to_obstacles c = Finite d \<longrightarrow>
       (get_safety_state c = UNSAFE) = (d < 0.5)
     \<and> (get_safety_state c = MILD_UNSAFE) = (0.5 \<le> d \<and> d < barrier_distance c)
     \<and> (get_safety_state c = SAFE) = (0.5 \<le> d \<and> barrier_distance c \<le> d))
   \<and> (get_distance_to_obstacles c = Infinity \<longrightarrow> get_safety_state c = SAFE)
   \<and> (obstacle_positions c = [] \<longrightarrow>
         get_distance_to_obstacles c = Infinity \<and> get_safety_state c = SAFE)
   \<and> (obstacle_positions c \<noteq> [] \<longrightarrow>
         get_distance_to_obstacles c =
           Finite (Min ((\<lambda>ob. norm_vec (vsub (current_position c) ob))
                          ` set (obstacle_positions c))))"
proof (intro conjI allI impI)
  fix d assume d: "get_distance_to_obstacles c = Finite d"
  show "(get_safety_state c = UNSAFE) = (d < 0.5)"
    by (simp add: get_safety_state_def d)
  show "(get_safety_state c = MILD_UNSAFE) = (0.5 \<le> d \<and> d < barrier_distance c)"
    by (auto simp add: get_safety_state_def d)
  show "(get_safety_state c = SAFE) = (0.5 \<le> d \<and> barrier_distance c \<le> d)"
    by (auto simp add: get_safety_state_def d)
next
  assume "get_distance_to_obstacles c = Infinity"
  then show "get_safety_state c = SAFE" by (simp add: get_safety_state_def)
next
  assume e: "obstacle_positions c = []"
  then show "get_distance_to_obstacles c = Infinity" by (rule get_distance_no_obstacles)
  then show "get_safety_state c = SAFE" by (simp add: get_safety_state_def)
next
  assume "obstacle_positions c \<noteq> []"
  then show "get_distance_to_obstacles c =
           Finite (Min ((\<lambda>ob. norm_vec (vsub (current_position c) ob))
                          ` set (obstacle_positions c)))"
    by (rule get_distance_is_minimum)
qed

text \<open>Claim C3, witness.  Two states: no obstacles (infinite distance, SAFE), and an obstacle at distance \<open>2\<close> with barrier distance \<open>3\<close> (MILD_UNSAFE).\<close>

theorem safety_state_classification_witness:
  "get_distance_to_obstacles
      \<lparr> start_point = (0, 0), end_point = (1, 0), obstacle_positions = [],
        barrier_distance = 1, speed = 1/2, current_position = (0, 0),
        path = [(0, 0), (1, 0)], current_path_index = 0, progress = 0,
        has_reached_end = False \<rparr> = Infinity
   \<and> get_safety_state
      \<lparr> start_point = (0, 0), end_point = (1, 0), obstacle_positions = [],
        barrier_distance = 1, speed = 1/2, current_position = (0, 0),
        path = [(0, 0), (1, 0)], current_path_index = 0, progress = 0,
        has_reached_end = False \<rparr> = SAFE
   \<and> get_distance_to_obstacles
      \<lparr> start_point = (0, 0), end_point = (4, 0), obstacle_positions = [(2, 0)],
        barrier_distance = 3, speed = 1/2, current_position = (0, 0),
        path = [(0, 0), (4, 0)], current_path_index = 0, progress = 0,
        has_reached_end = False \<rparr> = Finite 2
   \<and> get_safety_state
      \<lparr> start_point = (0, 0), end_point = (4, 0), obstacle_positions = [(2, 0)],
        barrier_distance = 3, speed = 1/2, current_position = (0, 0),
        path = [(0, 0), (4, 0)], current_path_index = 0, progress = 0,
        has_reached_end = False \<rparr> = MILD_UNSAFE"
proof -
  have d: "get_distance_to_obstacles
      \<lparr> start_point = (0, 0), end_point = (4, 0), obstacle_positions = [(2, 0)],
        barrier_distance = 3, speed = 1/2, current_position = (0, 0),
        path = [(0, 0), (4, 0)], current_path_index = 0, progress = 0,
        has_reached_end = False \<rparr> = Finite 2"
    by (simp add: get_distance_to_obstacles_def vsub_def norm_vec_x_axis)
  show ?thesis
    using safety_state_classification[of
      "\<lparr> start_point = (0, 0), end_point = (1, 0), obstacle_positions = [],
        barrier_distance = 1, speed = 1/2, current_position = (0, 0),
        path = [(0, 0), (1, 0)], current_path_index = 0, progress = 0,
        has_reached_end = False \<rparr>"]
      safety_state_classification[of
      "\<lparr> start_point = (0, 0), end_point = (4, 0), obstacle_positions = [(2, 0)],
        barrier_distance = 3, speed = 1/2, current_position = (0, 0),
        path = [(0, 0), (4, 0)], current_path_index = 0, progress = 0,
        has_reached_end = False \<rparr>"]
      d
    by simp
qed

section \<open>Safe-point correction and the planned path\<close>

text \<open>
  Claim C10.  The claim: for every obstacle set, a point that coincides with an obstacle
  is returned unmodified, and neither this case nor \<open>start = end\<close> raises a division
  error.  The first part fails when there is a second obstacle: a point on the first of
  two obstacles is inside the barrier of the second and is pushed away from it.
\<close>

theorem coincident_point_moved_by_other_obstacle:
  "(0, 0) \<in> set [(0, 0), (1, 0) :: point]
   \<and> ensure_safe_point [(0, 0), (1, 0)] 2 (0, 0) = Inr (- (6/5), 0)
   \<and> ensure_safe_point [(0, 0), (1, 0)] 2 (0, 0) \<noteq> Inr (0, 0)"
  by (simp add: ensure_safe_point_def vec_ops norm_eval)

text \<open>
  Claim C10, amended.  A point that coincides with an obstacle is returned unmodified
  when every obstacle of the set is at the point or at least the barrier distance away
  from it (so for every single-obstacle set); and for all inputs, a point on an obstacle
  and \<open>start = end\<close> included, neither the correction nor the planner divides by zero:
  both return a value.
\<close>

theorem coincident_point_unmoved_and_no_division_error:
  "(p \<in> set obstacles \<and> (\<forall>ob\<in>set obstacles. ob = p \<or> barrier \<le> norm_vec (vsub p ob))
       \<longrightarrow> ensure_safe_point obstacles barrier p = Inr p)
   \<and> (\<exists>q. ensure_safe_point obstacles barrier p = Inr q)
   \<and> (\<exists>pth. calculate_safe_path start_pt end_pt obstacles barrier = Inr pth)"
  using ensure_safe_loop_fixed[of obstacles p barrier]
    ensure_safe_point_total[of obstacles barrier p]
    calculate_safe_path_total[of start_pt end_pt obstacles barrier]
  unfolding ensure_safe_point_def by blast

text \<open>Claim C10, witness.  A point on the first of two obstacles, the second three units away, barrier distance \<open>2\<close>; and a plan with \<open>start = end\<close>.\<close>

theorem coincident_point_unmoved_and_no_division_error_witness:
  "(0, 0) \<in> set [(0, 0), (3, 0)]
   \<and> (2::real) \<le> norm_vec (vsub (0, 0) (3, 0))
   \<and> ensure_safe_point [(0, 0), (3, 0)] 2 (0, 0) = Inr (0, 0)
   \<and> (\<exists>pth. calculate_safe_path (1, 1) (1, 1) [(0, 0), (3, 0)] 2 = Inr pth)"
  using coincident_point_unmoved_and_no_division_error[of "(0, 0)" "[(0, 0), (3, 0)]" 2 "(1, 1)" "(1, 1)"]
  by (simp add: vsub_def norm_vec_x_axis)

text \<open>A scenario whose start point lies inside the barrier of the obstacle.\<close>

lemma start_inside_safe_points:
  "ensure_safe_point [(1/2, 0)] 1 (- (7/10), - (6/5)) = Inr (- (7/10), - (6/5))"
  "ensure_safe_point [(1/2, 0)] 1 (1/2, - (3/2)) = Inr (1/2, - (3/2))"
  "ensure_safe_point [(1/2, 0)] 1 (4, 0) = Inr (4, 0)"
  by (simp_all add: ensure_safe_point_def vec_ops norm_eval)

lemma start_inside_plan_obstacle:
  "plan_obstacle (0, 0) (4, 0) [(1/2, 0)] 1 ([(0, 0)], (0, 0)) (1/2, 0)
     = Inr ([(0, 0), (- (7/10), - (6/5)), (1/2, - (3/2))], (1/2, - (3/2)))"
  by (simp add: plan_obstacle_def Let_def vec_ops norm_eval start_inside_safe_points)

text \<open>
  Claim C2.  The claim: every waypoint of the planned path is at least the barrier
  distance away from every obstacle, unless it coincides with an obstacle.  The first
  waypoint is the start point, which is never corrected: with the start half a unit
  from the obstacle and barrier distance \<open>1\<close> the path begins inside the barrier.
\<close>

theorem start_waypoint_inside_barrier:
  "calculate_safe_path (0, 0) (4, 0) [(1/2, 0)] 1
     = Inr [(0, 0), (- (7/10), - (6/5)), (1/2, - (3/2)), (4, 0)]
   \<and> (0, 0) \<noteq> ((1/2, 0) :: point)
   \<and> norm_vec (vsub (0, 0) (1/2, 0)) = 1/2
   \<and> norm_vec (vsub (0, 0) (1/2, 0)) < 1"
  by (simp add: calculate_safe_path_def start_inside_plan_obstacle start_inside_safe_points
        vec_ops norm_eval)

text \<open>
  With more than one obstacle a corrected point can violate an earlier barrier as well:
  the correction for the second obstacle is not checked against the first.
\<close>

lemma second_obstacle_undoes_first:
  "ensure_safe_point [(0, 0), (3/2, 0)] 1 (1, 0) = Inr (2/5, 0)
   \<and> norm_vec (vsub (2/5, 0) (0, 0)) = 2/5"
  by (simp add: ensure_safe_point_def vec_ops norm_eval)

text \<open>
  Claim C2, amended.  For a single obstacle, the path starts with the start point as it
  was given, and every later waypoint is at least the barrier distance away from the
  obstacle or coincides with it.
\<close>

theorem single_obstacle_waypoints_clear_of_barrier:
  "\<exists>ws. calculate_safe_path start_pt end_pt [ob] barrier = Inr (start_pt # ws)
     \<and> (\<forall>w\<in>set ws. w = ob \<or> barrier \<le> norm_vec (vsub w ob))"
  using calculate_safe_path_shape[of "[ob]" barrier "\<lambda>w. w = ob \<or> barrier \<le> norm_vec (vsub w ob)" start_pt end_pt]
    ensure_safe_single[of ob barrier]
  by blast

text \<open>Claim C2, witness.  The worked scenario: the three waypoints after the start are clear of the barrier.\<close>

theorem single_obstacle_waypoints_clear_of_barrier_witness:
  "calculate_safe_path (0, 0) (4, 0) [(2, 0)] 1
     = Inr [(0, 0), (4/5, - (6/5)), (2, - (3/2)), (4, 0)]
   \<and> 1 \<le> norm_vec (vsub (4/5, - (6/5)) (2, 0))
   \<and> 1 \<le> norm_vec (vsub (2, - (3/2)) (2, 0))
   \<and> 1 \<le> norm_vec (vsub (4, 0) (2, 0))"
  using single_obstacle_waypoints_clear_of_barrier[of "(0, 0)" "(4, 0)" "(2, 0)" 1]
  by (simp add: detour_path)

section \<open>The simulation loop\<close>





lemma loop_body_test_results:
  "test_results (rs_collector (loop_body tid s)) = test_results (rs_collector s)"
  by (simp add: loop_body_def Let_def collect_frame_data_def)

lemma run_loop_continue:
  "fst (step (rs_car s)) \<Longrightarrow> rs_frame_count s < 1000 \<Longrightarrow>
     run_loop tid s = run_loop tid (loop_body tid (s\<lparr>rs_car := snd (step (rs_car s))\<rparr>))"
  by (subst run_loop.simps) (simp add: Let_def)

lemma run_loop_stop:
  "\<not> (fst (step (rs_car s)) \<and> rs_frame_count s < 1000) \<Longrightarrow>
     run_loop tid s = s\<lparr>rs_car := snd (step (rs_car s))\<rparr>"
  by (subst run_loop.simps) (auto simp add: Let_def)

text \<open>An invariant of the loop state that the body keeps is kept by the whole loop.\<close>

lemma run_loop_invariant:
  assumes body: "\<And>t s. I s \<Longrightarrow> fst (step (rs_car s)) \<Longrightarrow> rs_frame_count s < 1000 \<Longrightarrow>
                   I (loop_body t (s\<lparr>rs_car := snd (step (rs_car s))\<rparr>))"
    and stop: "\<And>s. I s \<Longrightarrow> \<not> (fst (step (rs_car s)) \<and> rs_frame_count s < 1000) \<Longrightarrow>
                   Q (s\<lparr>rs_car := snd (step (rs_car s))\<rparr>)"
  shows "I s \<Longrightarrow> Q (run_loop tid s)"
proof (induction tid s rule: run_loop.induct)
  case (1 tid s)
  show ?case
  proof (cases "fst (step (rs_car s)) \<and> rs_frame_count s < 1000")
    case True
    then have c: "fst (step (rs_car s))" "rs_frame_count s < 1000" by simp_all
    have cond: "fst (step (rs_car s)) \<and> rs_frame_count (s\<lparr>rs_car := snd (step (rs_car s))\<rparr>) < 1000"
      using c by simp
    have "I (loop_body tid (s\<lparr>rs_car := snd (step (rs_car s))\<rparr>))"
      by (rule body[OF "1.prems" c])
    then have "Q (run_loop tid (loop_body tid (s\<lparr>rs_car := snd (step (rs_car s))\<rparr>)))"
      by (rule "1.IH"[OF refl refl cond])
    then show ?thesis unfolding run_loop_continue[OF c, of tid] .
  next
    case False
    show ?thesis unfolding run_loop_stop[OF False, of tid] by (rule stop[OF "1.prems" False])
  qed
qed



lemma run_loop_test_results:
  "test_results (rs_collector (run_loop tid s)) = test_results (rs_collector s)"
proof (rule run_loop_invariant[where I = "\<lambda>s'. test_results (rs_collector s') = test_results (rs_collector s)"])
  show "test_results (rs_collector s) = test_results (rs_collector s)" by simp
qed (simp_all add: loop_body_test_results)









section \<open>Validation of the barrier distance\<close>

lemma zero_barrier_path:
  "calculate_safe_path (0, 0) (4, 0) [(2, 0)] 0 = Inr [(0, 0), (2, 0), (4, 0)]"
  by (simp add: calculate_safe_path_def plan_obstacle_def ensure_safe_point_def Let_def vec_ops norm_eval)

text \<open>
  The interactive collaborator clamps what the user types: \<^verbatim>\<open>get_barrier_distance\<close> returns
  at least \<open>0.5\<close>, and \<open>0.5\<close> for every typed value up to \<open>0.5\<close>, so for every value
  \<open>\<le> 0\<close>.  The constructor of the simulator stores what it is given.
\<close>

lemma get_barrier_distance_clamps:
  "1/2 \<le> get_barrier_distance typed"
  "x \<le> 1/2 \<Longrightarrow> get_barrier_distance (Some x) = 1/2"
  "1/2 < x \<Longrightarrow> get_barrier_distance (Some x) = x"
  by (auto simp: get_barrier_distance_def split: option.splits)

lemma HeadlessCarSimulator_stores_arguments:
  assumes "HeadlessCarSimulator start_pt end_pt obstacles barrier spd = Inr c"
  shows "barrier_distance c = barrier \<and> start_point c = start_pt \<and> end_point c = end_pt
           \<and> obstacle_positions c = obstacles"
  using assms by (auto simp: HeadlessCarSimulator_def split: sum.splits)

text \<open>
  Claim C9.  The claim: for every scenario the core engine consumes, a non-finite
  coordinate is rejected and a barrier distance \<open>\<le> 0\<close> is replaced by the minimum \<open>0.5\<close>
  before any path geometry is computed from it.  On the way from a scenario file to the
  simulator nothing looks at the value, where the interactive collaborator does clamp
  it: a row with barrier distance \<open>0\<close> gives a scenario with barrier distance \<open>0\<close>, and
  the simulator built from it keeps \<open>0\<close> and plans a path that runs straight through
  the obstacle at \<open>(2, 0)\<close>.  (Non-finite coordinates are outside the real-number model.)
\<close>

theorem zero_barrier_reaches_planner_unchanged:
  "parse_test
     [(''start_x'', (''0'', Some 0)), (''start_y'', (''0'', Some 0)),
      (''end_x'', (''4'', Some 4)), (''end_y'', (''0'', Some 0)),
      (''obstacle_x'', (''2'', Some 2)), (''obstacle_y'', (''0'', Some 0)),
      (''barrier_distance'', (''0'', Some 0)), (''speed'', (''0.5'', Some (1/2))),
      (''description'', (''zero barrier'', None))]
     = Inr \<lparr> sc_description = ''zero barrier'', sc_start_point = (0, 0),
             sc_end_point = (4, 0), sc_obstacle_positions = [(2, 0)],
             sc_barrier_distance = 0, sc_speed = 1/2 \<rparr>
   \<and> HeadlessCarSimulator (0, 0) (4, 0) [(2, 0)] 0 (1/2)
     = Inr \<lparr> start_point = (0, 0), end_point = (4, 0), obstacle_positions = [(2, 0)],
             barrier_distance = 0, speed = 1/2, current_position = (0, 0),
             path = [(0, 0), (2, 0), (4, 0)], current_path_index = 0, progress = 0,
             has_reached_end = False \<rparr>"
  by (simp add: parse_test_def bind_err_def row_get_def float_field_def py_float_def
        HeadlessCarSimulator_def zero_barrier_path)

section \<open>Optimal barrier distance of a group\<close>

lemma bind_err_Inr: "bind_err (Inr x) f = f x"
  by (simp add: bind_err_def)

lemma bind_err_Inl: "bind_err (Inl e) f = Inl e"
  by (simp add: bind_err_def)

lemma py_min_by_first_minimal:
  assumes "xs \<noteq> []"
  shows "\<exists>m pre post. py_min_by key xs = Inr m \<and> xs = pre @ m # post
           \<and> (\<forall>y\<in>set pre. key m < key y) \<and> (\<forall>y\<in>set post. key m \<le> key y)"
proof -
  obtain x rest where xs: "xs = x # rest" using assms by (cases xs) auto
  have m: "py_min_by key (x # rest) = Inr (min_by_loop key x rest)"
    by (simp add: py_min_by_def)
  show ?thesis unfolding xs m using min_by_loop_decomp[of x rest key] by blast
qed

lemma py_min_by_Min:
  assumes "xs \<noteq> []"
  shows "\<exists>m. py_min_by key xs = Inr m \<and> m \<in> set xs \<and> key m = Min (key ` set xs)"
proof -
  obtain x rest where xs: "xs = x # rest" using assms by (cases xs) auto
  show ?thesis unfolding xs py_min_by_def
    using min_by_loop_Min[of key x rest] min_by_loop_in_set[of key x rest] by simp
qed

lemma percentage_nonempty: "tot \<noteq> 0 \<Longrightarrow> percentage cnt tot = Inr (real cnt / real tot * 100)"
  by (simp add: percentage_def)

lemma optimal_barrier_safe:
  assumes "filter (\<lambda>r. safety_status r = SAFE) rs \<noteq> []"
  shows "optimal_barrier rs =
           Inr (Optimal (Min (tr_barrier_distance ` set (filter (\<lambda>r. safety_status r = SAFE) rs))))"
proof -
  obtain m where "py_min_by tr_barrier_distance (filter (\<lambda>r. safety_status r = SAFE) rs) = Inr m"
    and "tr_barrier_distance m
           = Min (tr_barrier_distance ` set (filter (\<lambda>r. safety_status r = SAFE) rs))"
    using py_min_by_Min[OF assms, of tr_barrier_distance] by blast
  then show ?thesis using assms by (simp add: optimal_barrier_def Let_def bind_err_Inr)
qed

lemma optimal_barrier_none_safe:
  assumes "filter (\<lambda>r. safety_status r = SAFE) rs = []" and "rs \<noteq> []"
  shows "\<exists>pre best post. rs = pre @ best # post
           \<and> (\<forall>r\<in>set pre. unsafe_frames best < unsafe_frames r)
           \<and> (\<forall>r\<in>set post. unsafe_frames best \<le> unsafe_frames r)
           \<and> optimal_barrier rs = Inr (Best (tr_barrier_distance best) (unsafe_frames best))"
proof -
  obtain m pre post where m: "py_min_by unsafe_frames rs = Inr m" and d: "rs = pre @ m # post"
    and pre: "\<forall>y\<in>set pre. unsafe_frames m < unsafe_frames y"
    and post: "\<forall>y\<in>set post. unsafe_frames m \<le> unsafe_frames y"
    using py_min_by_first_minimal[OF assms(2), of unsafe_frames] by blast
  have "optimal_barrier rs = Inr (Best (tr_barrier_distance m) (unsafe_frames m))"
    using assms(1) m by (simp add: optimal_barrier_def Let_def bind_err_Inr)
  with d pre post show ?thesis by blast
qed

lemma report_group_nonempty:
  assumes "rs \<noteq> []"
  shows "\<exists>g. report_group descr rs = Inr g \<and> optimal_barrier rs = Inr (gr_barrier g)
           \<and> gr_description g = descr \<and> gr_total_count g = length rs"
proof -
  obtain line where line: "optimal_barrier rs = Inr line"
  proof (cases "filter (\<lambda>r. safety_status r = SAFE) rs = []")
    case True
    then show ?thesis using optimal_barrier_none_safe[OF True assms] that by blast
  next
    case False
    then show ?thesis using optimal_barrier_safe[OF False] that by blast
  qed
  have len: "length rs \<noteq> 0" using assms by simp
  show ?thesis
    unfolding report_group_def Let_def percentage_nonempty[OF len] bind_err_Inr line
    by simp
qed

lemma group_append_nonempty:
  assumes "\<forall>(d, rs)\<in>set groups. rs \<noteq> []"
  shows "\<forall>(d, rs)\<in>set (group_append groups r). rs \<noteq> []"
  using assms by (induction groups r rule: group_append.induct) auto

lemma foldl_group_append_nonempty:
  assumes "\<forall>(d, rs)\<in>set groups. rs \<noteq> []"
  shows "\<forall>(d, rs)\<in>set (foldl group_append groups results). rs \<noteq> []"
  using assms
proof (induction results arbitrary: groups)
  case Nil
  then show ?case by simp
next
  case (Cons r results)
  show ?case unfolding foldl_Cons
    by (rule Cons.IH) (rule group_append_nonempty[OF Cons.prems])
qed

lemma grouped_results_nonempty:
  "(descr, rs) \<in> set (grouped_results results) \<Longrightarrow> rs \<noteq> []"
  using foldl_group_append_nonempty[of "[]" results] unfolding grouped_results_def by auto

lemma report_groups_nonempty:
  assumes "\<forall>(d, rs)\<in>set groups. rs \<noteq> []"
  shows "\<exists>gs. report_groups groups = Inr gs
           \<and> list_all2 (\<lambda>(d, rs) g. report_group d rs = Inr g) groups gs"
  using assms
proof (induction groups)
  case Nil
  show ?case by simp
next
  case (Cons grp groups)
  obtain d rs where grp: "grp = (d, rs)" by (cases grp)
  have "rs \<noteq> []" using Cons.prems grp by simp
  then obtain g where g: "report_group d rs = Inr g"
    using report_group_nonempty[of rs d] by blast
  obtain gs where gs: "report_groups groups = Inr gs"
    and all: "list_all2 (\<lambda>(d, rs) g. report_group d rs = Inr g) groups gs"
    using Cons.IH Cons.prems by auto
  show ?case unfolding grp using g gs all by (simp add: bind_err_Inr)
qed

lemma generate_test_summary_nonempty:
  assumes "results \<noteq> []"
  shows "\<exists>sm. generate_test_summary results = Inr sm
           \<and> list_all2 (\<lambda>(d, rs) g. report_group d rs = Inr g)
                (grouped_results results) (sm_groups sm)"
proof -
  have "\<forall>(d, rs)\<in>set (grouped_results results). rs \<noteq> []"
    using grouped_results_nonempty by blast
  then obtain gs where gs: "report_groups (grouped_results results) = Inr gs"
    and all: "list_all2 (\<lambda>(d, rs) g. report_group d rs = Inr g) (grouped_results results) gs"
    using report_groups_nonempty by blast
  have len: "length results \<noteq> 0" using assms by simp
  obtain ov where ov: "(if filter (\<lambda>r. safety_status r = SAFE) results \<noteq> []
          then bind_err (py_min_by tr_barrier_distance (filter (\<lambda>r. safety_status r = SAFE) results))
                 (\<lambda>overall_optimal. Inr (Some (tr_barrier_distance overall_optimal)))
          else Inr None) = Inr ov"
  proof (cases "filter (\<lambda>r. safety_status r = SAFE) results = []")
    case True
    then show ?thesis using that by simp
  next
    case False
    obtain m where "py_min_by tr_barrier_distance (filter (\<lambda>r. safety_status r = SAFE) results) = Inr m"
      using py_min_by_Min[OF False, of tr_barrier_distance] by blast
    then show ?thesis using that False by (simp add: bind_err_Inr)
  qed
  show ?thesis
    unfolding generate_test_summary_def Let_def gs bind_err_Inr percentage_nonempty[OF len] ov
    using all by simp
qed

subsection \<open>The groups\<close>

lemma group_append_keys:
  "map fst (group_append groups r) =
     (if description r \<in> fst ` set groups then map fst groups
      else map fst groups @ [description r])"
  by (induction groups r rule: group_append.induct) auto

lemma group_append_member:
  assumes "distinct (map fst groups)" and "(d, rs) \<in> set (group_append groups r)"
  shows "if d = description r
         then (if d \<in> fst ` set groups
               then \<exists>rs0. (d, rs0) \<in> set groups \<and> rs = rs0 @ [r]
               else rs = [r])
         else (d, rs) \<in> set groups"
  using assms
proof (induction groups r rule: group_append.induct)
  case (1 r)
  then show ?case by simp
next
  case (2 d' rs' groups r)
  show ?case
  proof (cases "d' = description r")
    case True
    have notin: "description r \<notin> fst ` set groups" using "2.prems"(1) True by auto
    from "2.prems"(2) True have "(d, rs) = (d', rs' @ [r]) \<or> (d, rs) \<in> set groups" by simp
    then show ?thesis
    proof
      assume "(d, rs) = (d', rs' @ [r])"
      then show ?thesis using True by auto
    next
      assume in_rest: "(d, rs) \<in> set groups"
      then have "d \<noteq> description r" using notin by force
      then show ?thesis using in_rest by simp
    qed
  next
    case False
    from "2.prems"(2) False
    have "(d, rs) = (d', rs') \<or> (d, rs) \<in> set (group_append groups r)" by simp
    then show ?thesis
    proof
      assume "(d, rs) = (d', rs')"
      then show ?thesis using False by auto
    next
      assume m: "(d, rs) \<in> set (group_append groups r)"
      have dist: "distinct (map fst groups)" using "2.prems"(1) by simp
      have ih: "if d = description r
         then (if d \<in> fst ` set groups
               then \<exists>rs0. (d, rs0) \<in> set groups \<and> rs = rs0 @ [r]
               else rs = [r])
         else (d, rs) \<in> set groups"
        using "2.IH"[OF False dist m] .
      show ?thesis
      proof (cases "d = description r")
        case True
        then have ne: "d \<noteq> d'" using False by simp
        show ?thesis
        proof (cases "d \<in> fst ` set groups")
          case in_keys: True
          then obtain rs0 where "(d, rs0) \<in> set groups" "rs = rs0 @ [r]"
            using ih True by auto
          then have "\<exists>rs0. (d, rs0) \<in> set ((d', rs') # groups) \<and> rs = rs0 @ [r]"
            by auto
          moreover have "d \<in> fst ` set ((d', rs') # groups)" using in_keys by simp
          ultimately show ?thesis using True by simp
        next
          case False
          then have "rs = [r]" using ih True by simp
          moreover have "d \<notin> fst ` set ((d', rs') # groups)" using False ne by simp
          ultimately show ?thesis using True by simp
        qed
      next
        case False
        then show ?thesis using ih by auto
      qed
    qed
  qed
qed

text \<open>
  The groups after the results \<open>xs\<close> have been filed: one group for each description
  that occurs, holding the results of that description in input order.
\<close>

lemma grouped_results_snoc:
  "grouped_results (xs @ [x]) = group_append (grouped_results xs) x"
  by (simp add: grouped_results_def)

lemma grouped_results_groups:
  "distinct (map fst (grouped_results xs))
   \<and> fst ` set (grouped_results xs) = description ` set xs
   \<and> (\<forall>(d, rs)\<in>set (grouped_results xs). rs = filter (\<lambda>r. description r = d) xs \<and> rs \<noteq> [])"
proof (induction xs rule: rev_induct)
  case Nil
  show ?case by (simp add: grouped_results_def)
next
  case (snoc x xs)
  let ?g = "grouped_results xs"
  have dist: "distinct (map fst ?g)" and keys: "fst ` set ?g = description ` set xs"
    and mem: "\<forall>(d, rs)\<in>set ?g. rs = filter (\<lambda>r. description r = d) xs \<and> rs \<noteq> []"
    using snoc.IH by simp_all
  have k: "map fst (group_append ?g x) =
     (if description x \<in> fst ` set ?g then map fst ?g else map fst ?g @ [description x])"
    by (rule group_append_keys)
  have 1: "distinct (map fst (group_append ?g x))"
    unfolding k using dist by auto
  have "set (map fst (group_append ?g x)) = description ` set (xs @ [x])"
    unfolding k using keys by auto
  then have 2: "fst ` set (group_append ?g x) = description ` set (xs @ [x])" by simp
  have 3: "\<forall>(d, rs)\<in>set (group_append ?g x).
             rs = filter (\<lambda>r. description r = d) (xs @ [x]) \<and> rs \<noteq> []"
  proof (intro ballI, clarify)
    fix d rs assume m: "(d, rs) \<in> set (group_append ?g x)"
    note c = group_append_member[OF dist m]
    show "rs = filter (\<lambda>r. description r = d) (xs @ [x]) \<and> rs \<noteq> []"
    proof (cases "d = description x")
      case True
      show ?thesis
      proof (cases "d \<in> fst ` set ?g")
        case in_keys: True
        then obtain rs0 where "(d, rs0) \<in> set ?g" "rs = rs0 @ [x]" using c True by auto
        then show ?thesis using mem True by auto
      next
        case False
        then have "rs = [x]" using c True by auto
        moreover have "filter (\<lambda>r. description r = d) xs = []"
          using False keys by (auto simp: filter_empty_conv)
        ultimately show ?thesis using True by simp
      qed
    next
      case False
      then have "(d, rs) \<in> set ?g" using c by auto
      then show ?thesis using mem False by auto
    qed
  qed
  show ?case unfolding grouped_results_snoc using 1 2 3 by blast
qed

subsection \<open>The report of a group, and the summary\<close>

lemma report_group_barrier:
  assumes ne: "rs \<noteq> []" and g: "report_group descr rs = Inr g"
  shows "gr_description g = descr \<and>
     (if \<exists>r\<in>set rs. safety_status r = SAFE
      then gr_barrier g =
             Optimal (Min (tr_barrier_distance ` set (filter (\<lambda>r. safety_status r = SAFE) rs)))
      else \<exists>pre best post. rs = pre @ best # post
             \<and> (\<forall>r\<in>set pre. unsafe_frames best < unsafe_frames r)
             \<and> (\<forall>r\<in>set post. unsafe_frames best \<le> unsafe_frames r)
             \<and> gr_barrier g = Best (tr_barrier_distance best) (unsafe_frames best))"
proof -
  obtain g' where g': "report_group descr rs = Inr g'"
    and line: "optimal_barrier rs = Inr (gr_barrier g')" and d: "gr_description g' = descr"
    using report_group_nonempty[OF ne, of descr] by blast
  have gg: "g' = g" using g g' by simp
  show ?thesis
  proof (cases "\<exists>r\<in>set rs. safety_status r = SAFE")
    case True
    then have "filter (\<lambda>r. safety_status r = SAFE) rs \<noteq> []"
      by (simp add: filter_empty_conv)
    from optimal_barrier_safe[OF this] line True d show ?thesis unfolding gg by simp
  next
    case False
    then have "filter (\<lambda>r. safety_status r = SAFE) rs = []"
      by (simp add: filter_empty_conv)
    from optimal_barrier_none_safe[OF this ne] line False d show ?thesis unfolding gg by auto
  qed
qed

lemma TestResult_sel:
  "test_id (TestResult a b c d e f g h) = a"
  "tr_barrier_distance (TestResult a b c d e f g h) = b"
  "total_frames (TestResult a b c d e f g h) = c"
  "safe_frames (TestResult a b c d e f g h) = d"
  "mild_unsafe_frames (TestResult a b c d e f g h) = e"
  "unsafe_frames (TestResult a b c d e f g h) = f"
  "min_distance_observed (TestResult a b c d e f g h) = g"
  "description (TestResult a b c d e f g h) = h"
  by (simp_all add: TestResult_def)

text \<open>
  Claim C7.  For a non-empty list of results \<^verbatim>\<open>generate_test_summary\<close> returns a summary.
  Its groups are the descriptions that occur, each once, in order of first occurrence,
  a group holding the results of its description in input order; and the summary has
  one report for each group, in the same order.  The barrier distance a report gives
  is: when some member of the group is SAFE, the least barrier distance among the SAFE
  members; otherwise the barrier distance (and the number of unsafe frames) of a member
  \<open>best\<close> such that every member before it in input order has strictly more unsafe
  frames and every member after it at least as many, that is, the first member with
  the fewest unsafe frames.
\<close>

theorem summary_reports_optimal_barrier_of_each_group:
  assumes "results \<noteq> []"
  shows "\<exists>sm. generate_test_summary results = Inr sm
     \<and> distinct (map fst (grouped_results results))
     \<and> fst ` set (grouped_results results) = description ` set results
     \<and> list_all2
          (\<lambda>(descr, rs) g.
             rs = filter (\<lambda>r. description r = descr) results
             \<and> gr_description g = descr
             \<and> (if \<exists>r\<in>set rs. safety_status r = SAFE
                then gr_barrier g =
                       Optimal (Min (tr_barrier_distance `
                                      set (filter (\<lambda>r. safety_status r = SAFE) rs)))
                else \<exists>pre best post. rs = pre @ best # post
                       \<and> (\<forall>r\<in>set pre. unsafe_frames best < unsafe_frames r)
                       \<and> (\<forall>r\<in>set post. unsafe_frames best \<le> unsafe_frames r)
                       \<and> gr_barrier g = Best (tr_barrier_distance best) (unsafe_frames best)))
          (grouped_results results) (sm_groups sm)"
proof -
  obtain sm where sm: "generate_test_summary results = Inr sm"
    and all: "list_all2 (\<lambda>(d, rs) g. report_group d rs = Inr g)
                (grouped_results results) (sm_groups sm)"
    using generate_test_summary_nonempty[OF assms] by blast
  note grp = grouped_results_groups[of results]
  have "list_all2
          (\<lambda>(descr, rs) g.
             rs = filter (\<lambda>r. description r = descr) results
             \<and> gr_description g = descr
             \<and> (if \<exists>r\<in>set rs. safety_status r = SAFE
                then gr_barrier g =
                       Optimal (Min (tr_barrier_distance `
                                      set (filter (\<lambda>r. safety_status r = SAFE) rs)))
                else \<exists>pre best post. rs = pre @ best # post
                       \<and> (\<forall>r\<in>set pre. unsafe_frames best < unsafe_frames r)
                       \<and> (\<forall>r\<in>set post. unsafe_frames best \<le> unsafe_frames r)
                       \<and> gr_barrier g = Best (tr_barrier_distance best) (unsafe_frames best)))
          (grouped_results results) (sm_groups sm)"
  proof (rule list.rel_mono_strong[OF all], clarify)
    fix d rs g
    assume m: "(d, rs) \<in> set (grouped_results results)" and g: "report_group d rs = Inr g"
    have rs: "rs = filter (\<lambda>r. description r = d) results" and ne: "rs \<noteq> []"
      using grp m by auto
    from report_group_barrier[OF ne g] rs
    show "rs = filter (\<lambda>r. description r = d) results
             \<and> gr_description g = d
             \<and> (if \<exists>r\<in>set rs. safety_status r = SAFE
                then gr_barrier g =
                       Optimal (Min (tr_barrier_distance `
                                      set (filter (\<lambda>r. safety_status r = SAFE) rs)))
                else \<exists>pre best post. rs = pre @ best # post
                       \<and> (\<forall>r\<in>set pre. unsafe_frames best < unsafe_frames r)
                       \<and> (\<forall>r\<in>set post. unsafe_frames best \<le> unsafe_frames r)
                       \<and> gr_barrier g = Best (tr_barrier_distance best) (unsafe_frames best))"
      by blast
  qed
  with sm grp show ?thesis by blast
qed

text \<open>
  Claim C7, witness.  Five results of two configurations, interleaved.  The group
  \<open>config\<close> is SAFE (barrier \<open>1\<close>), SAFE (barrier \<open>2\<close>), UNSAFE (barrier \<open>0.5\<close>): its
  optimal barrier distance is \<open>1\<close>.  The group \<open>other\<close> has no SAFE member and two members
  with three unsafe frames each: the first of them, with barrier \<open>0.5\<close>, is reported.
\<close>

theorem summary_reports_optimal_barrier_of_each_group_witness:
  "\<exists>sm g1 g2.
     generate_test_summary
       [TestResult 1 1 50 50 0 0 (Finite 2) ''config'',
        TestResult 2 (1/2) 50 40 7 3 (Finite (1/4)) ''other'',
        TestResult 3 2 50 50 0 0 (Finite 3) ''config'',
        TestResult 4 1 50 40 7 3 (Finite (1/4)) ''other'',
        TestResult 5 (1/2) 50 40 7 3 (Finite (1/4)) ''config''] = Inr sm
     \<and> sm_groups sm = [g1, g2]
     \<and> gr_description g1 = ''config'' \<and> gr_barrier g1 = Optimal 1
     \<and> gr_description g2 = ''other'' \<and> gr_barrier g2 = Best (1/2) 3"
proof -
  let ?a1 = "TestResult 1 1 50 50 0 0 (Finite 2) ''config''"
  let ?b1 = "TestResult 2 (1/2) 50 40 7 3 (Finite (1/4)) ''other''"
  let ?a2 = "TestResult 3 2 50 50 0 0 (Finite 3) ''config''"
  let ?b2 = "TestResult 4 1 50 40 7 3 (Finite (1/4)) ''other''"
  let ?a3 = "TestResult 5 (1/2) 50 40 7 3 (Finite (1/4)) ''config''"
  let ?rs = "[?a1, ?b1, ?a2, ?b2, ?a3]"
  let ?P = "\<lambda>(descr, rs) g.
             rs = filter (\<lambda>r. description r = descr) ?rs
             \<and> gr_description g = descr
             \<and> (if \<exists>r\<in>set rs. safety_status r = SAFE
                then gr_barrier g =
                       Optimal (Min (tr_barrier_distance `
                                      set (filter (\<lambda>r. safety_status r = SAFE) rs)))
                else \<exists>pre best post. rs = pre @ best # post
                       \<and> (\<forall>r\<in>set pre. unsafe_frames best < unsafe_frames r)
                       \<and> (\<forall>r\<in>set post. unsafe_frames best \<le> unsafe_frames r)
                       \<and> gr_barrier g = Best (tr_barrier_distance best) (unsafe_frames best))"
  have grp: "grouped_results ?rs = [(''config'', [?a1, ?a2, ?a3]), (''other'', [?b1, ?b2])]"
    by (simp add: grouped_results_def TestResult_sel)
  have ne: "?rs \<noteq> []" by simp
  obtain sm where sm: "generate_test_summary ?rs = Inr sm"
    and all: "list_all2 ?P (grouped_results ?rs) (sm_groups sm)"
    using summary_reports_optimal_barrier_of_each_group[OF ne] by blast
  have all2: "list_all2 ?P [(''config'', [?a1, ?a2, ?a3]), (''other'', [?b1, ?b2])] (sm_groups sm)"
    using all unfolding grp .
  have "length (sm_groups sm) = 2" using list_all2_lengthD[OF all2] by simp
  then obtain g1 g2 where gs: "sm_groups sm = [g1, g2]"
    by (auto simp: length_Suc_conv numeral_2_eq_2)
  have both: "?P (''config'', [?a1, ?a2, ?a3]) g1 \<and> ?P (''other'', [?b1, ?b2]) g2"
    using all2 unfolding gs list_all2_Cons list_all2_Nil by (elim conjE) (intro conjI)
  have p1: "?P (''config'', [?a1, ?a2, ?a3]) g1" and p2: "?P (''other'', [?b1, ?b2]) g2"
    using both by (rule conjunct1, rule conjunct2)
  have d1: "gr_description g1 = ''config''" using p1 by simp
  have o1: "gr_barrier g1 = Optimal 1"
    using p1 by (simp add: safety_status_def TestResult_sel)
  have d2: "gr_description g2 = ''other''" using p2 by simp
  obtain pre best post where dec: "[?b1, ?b2] = pre @ best # post"
    and before: "\<forall>r\<in>set pre. unsafe_frames best < unsafe_frames r"
    and line: "gr_barrier g2 = Best (tr_barrier_distance best) (unsafe_frames best)"
    using p2 by (simp add: safety_status_def TestResult_sel) blast
  have "best = ?b1"
  proof (cases pre)
    case Nil
    then show ?thesis using dec by simp
  next
    case (Cons x pre')
    then have x: "x = ?b1" and rest: "[?b2] = pre' @ best # post" using dec by simp_all
    have "best = ?b2" using rest by (cases pre') simp_all
    moreover have "unsafe_frames best < unsafe_frames ?b1" using before Cons x by simp
    ultimately show ?thesis by (simp add: TestResult_sel)
  qed
  then have o2: "gr_barrier g2 = Best (1/2) 3" using line by (simp add: TestResult_sel)
  show ?thesis using sm gs d1 o1 d2 o2 by blast
qed

section \<open>A batch with a malformed row\<close>

lemma run_single_test_returns:
  "\<exists>r dc'. run_single_test tid s e obs b sp dc descr = Inr (r, dc')
      \<and> test_results dc' = test_results dc"
proof -
  obtain c where c: "HeadlessCarSimulator s e obs b sp = Inr c"
    using HeadlessCarSimulator_fields[of s e obs b sp] by blast
  show ?thesis
    by (simp add: run_single_test_def run_single_test_state_def c run_loop_test_results)
qed

lemma run_test_row_bad: "parse_test test = Inl e \<Longrightarrow> run_test_row i test dc = Inl e"
  by (simp add: run_test_row_def bind_err_Inl)

lemma run_test_row_good:
  assumes "parse_test test = Inr sc"
  shows "\<exists>dc'. run_test_row i test dc = Inr dc'
           \<and> length (test_results dc') = length (test_results dc) + 1"
proof -
  obtain r dc1 where r: "run_single_test (i + 1) (sc_start_point sc) (sc_end_point sc)
                 (sc_obstacle_positions sc) (sc_barrier_distance sc) (sc_speed sc) dc
                 (sc_description sc) = Inr (r, dc1)"
    and keep: "test_results dc1 = test_results dc"
    using run_single_test_returns by blast
  show ?thesis
    unfolding run_test_row_def assms bind_err_Inr r using keep by simp
qed

lemma run_test_rows_good:
  assumes "\<forall>t\<in>set tests. \<exists>sc. parse_test t = Inr sc"
  shows "\<exists>dc'. run_test_rows i tests dc = Inr dc'
           \<and> length (test_results dc') = length (test_results dc) + length tests"
  using assms
proof (induction tests arbitrary: i dc)
  case Nil
  show ?case by simp
next
  case (Cons t tests)
  obtain sc where "parse_test t = Inr sc" using Cons.prems by auto
  then obtain dc1 where 1: "run_test_row i t dc = Inr dc1"
    and l1: "length (test_results dc1) = length (test_results dc) + 1"
    using run_test_row_good by blast
  obtain dc2 where 2: "run_test_rows (i + 1) tests dc1 = Inr dc2"
    and l2: "length (test_results dc2) = length (test_results dc1) + length tests"
    using Cons.IH[of "i + 1" dc1] Cons.prems by auto
  show ?case using 1 2 l1 l2 by simp
qed

lemma run_test_rows_append:
  "run_test_rows i (xs @ ys) dc =
     (case run_test_rows i xs dc of
        Inl err \<Rightarrow> Inl err
      | Inr dc' \<Rightarrow> run_test_rows (i + length xs) ys dc')"
  by (induction xs arbitrary: i dc) (auto split: sum.splits)

lemma batch_without_bad_rows_completes:
  assumes "\<forall>t\<in>set tests. \<exists>sc. parse_test t = Inr sc" and "tests \<noteq> []"
  shows "\<exists>rs sm. run_tests_from_csv tests = AllTestsCompleted rs sm \<and> length rs = length tests"
proof -
  obtain dc where dc: "run_test_rows 0 tests TestDataCollector = Inr dc"
    and len: "length (test_results dc) = length (test_results TestDataCollector) + length tests"
    using run_test_rows_good[OF assms(1)] by blast
  have l: "length (test_results dc) = length tests"
    using len by (simp add: TestDataCollector_def)
  then have "test_results dc \<noteq> []" using assms(2) by auto
  then obtain sm where "generate_test_summary (test_results dc) = Inr sm"
    using generate_test_summary_nonempty by blast
  then show ?thesis using dc l by (simp add: run_tests_from_csv_def)
qed

lemma good_row_parses:
  "parse_test
     [(''start_x'', (''0'', Some 0)), (''start_y'', (''0'', Some 0)),
      (''end_x'', (''4'', Some 4)), (''end_y'', (''0'', Some 0)),
      (''obstacle_x'', (''2'', Some 2)), (''obstacle_y'', (''0'', Some 0)),
      (''barrier_distance'', (''1'', Some 1)), (''speed'', (''0.5'', Some (1/2))),
      (''description'', (''good'', None))]
   = Inr \<lparr> sc_description = ''good'', sc_start_point = (0, 0),
           sc_end_point = (4, 0), sc_obstacle_positions = [(2, 0)],
           sc_barrier_distance = 1, sc_speed = 1/2 \<rparr>"
  by (simp add: parse_test_def bind_err_def row_get_def float_field_def py_float_def)

lemma bad_row_fails:
  "parse_test
     [(''start_x'', (''abc'', None)), (''start_y'', (''0'', Some 0)),
      (''end_x'', (''4'', Some 4)), (''end_y'', (''0'', Some 0)),
      (''obstacle_x'', (''2'', Some 2)), (''obstacle_y'', (''0'', Some 0)),
      (''barrier_distance'', (''1'', Some 1)), (''speed'', (''0.5'', Some (1/2))),
      (''description'', (''bad'', None))]
   = Inl ValueError"
  by (simp add: parse_test_def bind_err_def row_get_def float_field_def py_float_def)

text \<open>
  Claim C5.  The claim: a row with a non-numeric field aborts only that scenario, and the
  batch continues with the remaining scenarios.  The loop over the rows sits inside a
  single \<^verbatim>\<open>try\<close> block: the \<^verbatim>\<open>ValueError\<close> of the first row ends the whole call, and the
  well-formed second row is never run.
\<close>

theorem bad_row_aborts_whole_batch:
  "run_tests_from_csv
     [ [(''start_x'', (''abc'', None)), (''start_y'', (''0'', Some 0)),
       (''end_x'', (''4'', Some 4)), (''end_y'', (''0'', Some 0)),
       (''obstacle_x'', (''2'', Some 2)), (''obstacle_y'', (''0'', Some 0)),
       (''barrier_distance'', (''1'', Some 1)), (''speed'', (''0.5'', Some (1/2))),
       (''description'', (''bad'', None))],
      [(''start_x'', (''0'', Some 0)), (''start_y'', (''0'', Some 0)),
       (''end_x'', (''4'', Some 4)), (''end_y'', (''0'', Some 0)),
       (''obstacle_x'', (''2'', Some 2)), (''obstacle_y'', (''0'', Some 0)),
       (''barrier_distance'', (''1'', Some 1)), (''speed'', (''0.5'', Some (1/2))),
       (''description'', (''good'', None))] ]
   = ErrorRunningTests ValueError []"
  by (simp add: run_tests_from_csv_def run_test_row_bad[OF bad_row_fails] TestDataCollector_def)

text \<open>
  Claim C5, amended.  When the rows before a malformed row are well formed, the batch
  runner runs exactly those, reports the parsing error of the malformed row, and stops:
  whatever rows follow, the outcome is the error together with one result for each row
  before the malformed one.
\<close>

theorem batch_stops_at_first_bad_row:
  assumes "\<forall>t\<in>set before. \<exists>sc. parse_test t = Inr sc"
    and "parse_test bad = Inl e"
  shows "\<exists>rs. run_tests_from_csv (before @ bad # after) = ErrorRunningTests e rs
           \<and> length rs = length before"
proof -
  obtain dc where dc: "run_test_rows 0 before TestDataCollector = Inr dc"
    and len: "length (test_results dc) = length (test_results TestDataCollector) + length before"
    using run_test_rows_good[OF assms(1)] by blast
  have "run_test_rows 0 (before @ bad # after) TestDataCollector = Inl (e, dc)"
    unfolding run_test_rows_append dc using run_test_row_bad[OF assms(2)] by simp
  then show ?thesis using len by (simp add: run_tests_from_csv_def TestDataCollector_def)
qed

text \<open>Claim C5, witness.  A batch of a well-formed row, a malformed row and a well-formed row: one result, then the error.\<close>

theorem batch_stops_at_first_bad_row_witness:
  "(\<exists>rs. run_tests_from_csv
     [ [(''start_x'', (''0'', Some 0)), (''start_y'', (''0'', Some 0)),
       (''end_x'', (''4'', Some 4)), (''end_y'', (''0'', Some 0)),
       (''obstacle_x'', (''2'', Some 2)), (''obstacle_y'', (''0'', Some 0)),
       (''barrier_distance'', (''1'', Some 1)), (''speed'', (''0.5'', Some (1/2))),
       (''description'', (''good'', None))],
      [(''start_x'', (''abc'', None)), (''start_y'', (''0'', Some 0)),
       (''end_x'', (''4'', Some 4)), (''end_y'', (''0'', Some 0)),
       (''obstacle_x'', (''2'', Some 2)), (''obstacle_y'', (''0'', Some 0)),
       (''barrier_distance'', (''1'', Some 1)), (''speed'', (''0.5'', Some (1/2))),
       (''description'', (''bad'', None))],
      [(''start_x'', (''0'', Some 0)), (''start_y'', (''0'', Some 0)),
       (''end_x'', (''4'', Some 4)), (''end_y'', (''0'', Some 0)),
       (''obstacle_x'', (''2'', Some 2)), (''obstacle_y'', (''0'', Some 0)),
       (''barrier_distance'', (''1'', Some 1)), (''speed'', (''0.5'', Some (1/2))),
       (''description'', (''good'', None))] ]
     = ErrorRunningTests ValueError rs \<and> length rs = 1)"
  using batch_stops_at_first_bad_row[OF _ bad_row_fails,
      of "[ [(''start_x'', (''0'', Some 0)), (''start_y'', (''0'', Some 0)),
       (''end_x'', (''4'', Some 4)), (''end_y'', (''0'', Some 0)),
       (''obstacle_x'', (''2'', Some 2)), (''obstacle_y'', (''0'', Some 0)),
       (''barrier_distance'', (''1'', Some 1)), (''speed'', (''0.5'', Some (1/2))),
       (''description'', (''good'', None))] ]"
      "[ [(''start_x'', (''0'', Some 0)), (''start_y'', (''0'', Some 0)),
       (''end_x'', (''4'', Some 4)), (''end_y'', (''0'', Some 0)),
       (''obstacle_x'', (''2'', Some 2)), (''obstacle_y'', (''0'', Some 0)),
       (''barrier_distance'', (''1'', Some 1)), (''speed'', (''0.5'', Some (1/2))),
       (''description'', (''good'', None))] ]"]
    good_row_parses
  by simp

end
